theory Spec2Isabelle
  imports Main
begin

section \<open>yaml\_to\_json: the syntax tree and the value model\<close>

text \<open>
  The program \<^verbatim>\<open>src/tools/yaml_to_json.go\<close> reads a YAML document, converts the
  parser's node tree with \<^verbatim>\<open>convertNode\<close> and writes the result with
  \<^verbatim>\<open>encoding/json\<close>. The node type \<^verbatim>\<open>yaml.Node\<close> belongs to
  \<^verbatim>\<open>gopkg.in/yaml.v3\<close>; the fields the program reads are \<^verbatim>\<open>Kind\<close>,
  \<^verbatim>\<open>Value\<close> and \<^verbatim>\<open>Content\<close>, and the scalar resolver reads
  \<^verbatim>\<open>Style\<close>, of which the scalar styles are kept. Child pointers are taken non-nil and the tree acyclic, as the
  parser builds them. \<open>AliasNode\<close> and the zero kind are the kinds the
  \<^verbatim>\<open>switch\<close> of \<^verbatim>\<open>convertNode\<close> sends to \<^verbatim>\<open>default\<close>.
\<close>

type_synonym error = string

datatype Kind = DocumentNode | SequenceNode | MappingNode | ScalarNode | AliasNode | ZeroKind

datatype Style = PlainStyle | DoubleQuotedStyle | SingleQuotedStyle | LiteralStyle | FoldedStyle

datatype Node = Node (Kind: Kind) (Style: Style) (Value: string) (Content: "Node list")

text \<open>
  A Go \<^verbatim>\<open>float64\<close> is kept opaque: reading and printing floats is the work of
  \<^verbatim>\<open>strconv\<close> and enters the model as a parameter.
\<close>

typedecl float64

text \<open>
  The values \<^verbatim>\<open>convertNode\<close> returns in an \<^verbatim>\<open>interface{}\<close>: \<^verbatim>\<open>nil\<close>,
  a \<^verbatim>\<open>bool\<close>, an integer, a \<^verbatim>\<open>float64\<close>, a \<^verbatim>\<open>string\<close>, a
  \<^verbatim>\<open>[]interface{}\<close> and an \<^verbatim>\<open>orderedMap\<close>, whose \<^verbatim>\<open>Entries\<close> are
  \<^verbatim>\<open>mapEntry{Key, Value}\<close> structs, here pairs.
\<close>

datatype Value = Null | Bool bool | Integer int | Float float64 | Text string
  | Slice "Value list" | orderedMap (Entries: "(string \<times> Value) list")

type_synonym mapEntry = "string \<times> Value"

text \<open>
  The run-time panic of an index expression out of range: the index and the length.
\<close>

datatype panic = IndexOutOfRange nat nat

section \<open>convertNode\<close>

text \<open>
  \<^verbatim>\<open>node.Decode(&out)\<close> is the parameter \<open>decode\<close>: the error, or the decoded value.
  The loop of the \<^verbatim>\<open>MappingNode\<close> case is \<open>convertEntries\<close>, whose arguments
  \<open>i\<close> and \<open>n\<close> are the loop index and \<^verbatim>\<open>len(node.Content)\<close>; with one child
  left, \<^verbatim>\<open>node.Content[i+1]\<close> panics. The loop of the \<^verbatim>\<open>SequenceNode\<close> case is
  \<open>convertItems\<close>.
\<close>

fun convertNode :: "(Node \<Rightarrow> error + Value) \<Rightarrow> Node \<Rightarrow> panic + Value"
  and convertEntries :: "(Node \<Rightarrow> error + Value) \<Rightarrow> nat \<Rightarrow> nat \<Rightarrow> Node list \<Rightarrow> panic + mapEntry list"
  and convertItems :: "(Node \<Rightarrow> error + Value) \<Rightarrow> Node list \<Rightarrow> panic + Value list"
where
  "convertNode decode (Node kind st v content) =
     (case kind of
        MappingNode \<Rightarrow>
          (case convertEntries decode 0 (length content) content of
             Inl p \<Rightarrow> Inl p
           | Inr entries \<Rightarrow> Inr (orderedMap entries))
      | SequenceNode \<Rightarrow>
          (case convertItems decode content of
             Inl p \<Rightarrow> Inl p
           | Inr items \<Rightarrow> Inr (Slice items))
      | ScalarNode \<Rightarrow>
          (case decode (Node kind st v content) of
             Inr out \<Rightarrow> Inr out
           | Inl err \<Rightarrow> Inr (Text v))
      | DocumentNode \<Rightarrow>
          (case content of
             child # _ \<Rightarrow> convertNode decode child
           | [] \<Rightarrow> Inr Null)
      | _ \<Rightarrow> Inr Null)"
| "convertEntries decode i n [] = Inr []"
| "convertEntries decode i n [keyNode] = Inl (IndexOutOfRange (i + 1) n)"
| "convertEntries decode i n (keyNode # valueNode # rest) =
     (case convertNode decode valueNode of
        Inl p \<Rightarrow> Inl p
      | Inr val \<Rightarrow>
          (case convertEntries decode (i + 2) n rest of
             Inl p \<Rightarrow> Inl p
           | Inr entries \<Rightarrow> Inr ((Value keyNode, val) # entries)))"
| "convertItems decode [] = Inr []"
| "convertItems decode (child # rest) =
     (case convertNode decode child of
        Inl p \<Rightarrow> Inl p
      | Inr item \<Rightarrow>
          (case convertItems decode rest of
             Inl p \<Rightarrow> Inl p
           | Inr items \<Rightarrow> Inr (item # items)))"

section \<open>encoding/json on the value model\<close>

text \<open>
  Modelled from the spec: the JSON encoder (\<^verbatim>\<open>encoding/json\<close>, the Go standard
  library) is not under \<^verbatim>\<open>src/\<close>. Strings get the standard JSON escaping of quotes,
  backslashes and control characters; a default encoder also escapes \<^verbatim>\<open><\<close>,
  \<^verbatim>\<open>>\<close> and \<^verbatim>\<open>&\<close>, which \<^verbatim>\<open>SetEscapeHTML(false)\<close> turns off. The
  definitions follow the library's \<^verbatim>\<open>appendString\<close>: \<open>safeSet\<close> and
  \<open>htmlSafeSet\<close> are its tables of bytes copied as they are, invalid UTF-8 is replaced
  by the escape of U+FFFD, and U+2028 and U+2029 are always escaped. Backspace and form
  feed are written with their short escapes, as the library does since Go 1.22.
\<close>

definition hex :: "nat \<Rightarrow> char" where
  "hex n = ''0123456789abcdef'' ! n"

definition backslash :: char where
  "backslash = CHR 0x5C"

definition quote :: char where
  "quote = CHR 0x22"

definition safeSet :: "char \<Rightarrow> bool" where
  "safeSet b \<longleftrightarrow>
     0x20 \<le> (of_char b :: nat) \<and> (of_char b :: nat) \<le> 0x7F \<and> b \<noteq> quote \<and> b \<noteq> backslash"

definition htmlSafeSet :: "char \<Rightarrow> bool" where
  "htmlSafeSet b \<longleftrightarrow> safeSet b \<and> b \<noteq> CHR ''<'' \<and> b \<noteq> CHR ''>'' \<and> b \<noteq> CHR ''&''"

definition escapeByte :: "char \<Rightarrow> string" where
  "escapeByte b =
     (if b = backslash \<or> b = quote then [backslash, b]
      else if b = CHR 0x08 then [backslash, CHR ''b'']
      else if b = CHR 0x0C then [backslash, CHR ''f'']
      else if b = CHR 0x0A then [backslash, CHR ''n'']
      else if b = CHR 0x0D then [backslash, CHR ''r'']
      else if b = CHR 0x09 then [backslash, CHR ''t'']
      else [backslash, CHR ''u'', CHR ''0'', CHR ''0'',
            hex (of_char b div 16), hex (of_char b mod 16)])"

text \<open>
  \<^verbatim>\<open>utf8.DecodeRuneInString\<close>, as far as \<^verbatim>\<open>appendString\<close> needs it: the size of
  the rune encoded at the head of the string, or \<open>None\<close> where the library returns
  \<^verbatim>\<open>(RuneError, 1)\<close>. \<open>first\<close> gives, for a leading byte, the size of the encoding
  and the range accepted for the second byte. It is applied to strings whose first byte
  is not ASCII. The runes U+2028 and U+2029 are recognised by their encodings
  \<^verbatim>\<open>E2 80 A8\<close> and \<^verbatim>\<open>E2 80 A9\<close>, whose last byte gives the last hex digit.
\<close>

definition continuation :: "nat \<Rightarrow> nat \<Rightarrow> char \<Rightarrow> bool" where
  "continuation lo hi b \<longleftrightarrow> lo \<le> (of_char b :: nat) \<and> (of_char b :: nat) \<le> hi"

definition first :: "char \<Rightarrow> (nat \<times> nat \<times> nat) option" where
  "first s0 =
     (let x = (of_char s0 :: nat) in
      if 0xC2 \<le> x \<and> x \<le> 0xDF then Some (2, 0x80, 0xBF)
      else if x = 0xE0 then Some (3, 0xA0, 0xBF)
      else if x = 0xED then Some (3, 0x80, 0x9F)
      else if 0xE1 \<le> x \<and> x \<le> 0xEF then Some (3, 0x80, 0xBF)
      else if x = 0xF0 then Some (4, 0x90, 0xBF)
      else if 0xF1 \<le> x \<and> x \<le> 0xF3 then Some (4, 0x80, 0xBF)
      else if x = 0xF4 then Some (4, 0x80, 0x8F)
      else None)"

definition DecodeRuneInString :: "string \<Rightarrow> nat option" where
  "DecodeRuneInString s =
     (case s of
        [] \<Rightarrow> None
      | s0 # rest \<Rightarrow>
          (case first s0 of
             None \<Rightarrow> None
           | Some (sz, lo, hi) \<Rightarrow>
               if length s < sz then None
               else if \<not> continuation lo hi (s ! 1) then None
               else if sz \<le> 2 then Some 2
               else if \<not> continuation 0x80 0xBF (s ! 2) then None
               else if sz \<le> 3 then Some 3
               else if \<not> continuation 0x80 0xBF (s ! 3) then None
               else Some 4))"

function appendStringLoop :: "bool \<Rightarrow> string \<Rightarrow> string" where
  "appendStringLoop escapeHTML [] = []"
| "appendStringLoop escapeHTML (b # src) =
     (if (of_char b :: nat) < 0x80 then
        (if htmlSafeSet b \<or> (\<not> escapeHTML \<and> safeSet b) then [b] else escapeByte b)
          @ appendStringLoop escapeHTML src
      else
        (case DecodeRuneInString (b # src) of
           None \<Rightarrow>
             [backslash, CHR ''u'', CHR ''f'', CHR ''f'', CHR ''f'', CHR ''d'']
               @ appendStringLoop escapeHTML src
         | Some sz \<Rightarrow>
             if take 3 (b # src) = [CHR 0xE2, CHR 0x80, CHR 0xA8]
                \<or> take 3 (b # src) = [CHR 0xE2, CHR 0x80, CHR 0xA9]
             then [backslash, CHR ''u'', CHR ''2'', CHR ''0'', CHR ''2'',
                   hex (of_char (src ! 1) mod 16)]
                    @ appendStringLoop escapeHTML (drop sz (b # src))
             else take sz (b # src) @ appendStringLoop escapeHTML (drop sz (b # src))))"
  by pat_completeness auto
termination
  by (relation "measure (\<lambda>(e, s). length s)")
    (auto simp: DecodeRuneInString_def split: option.splits if_splits)

definition appendString :: "bool \<Rightarrow> string \<Rightarrow> string" where
  "appendString escapeHTML src = [quote] @ appendStringLoop escapeHTML src @ [quote]"

text \<open>
  Integers are printed in decimal (\<^verbatim>\<open>strconv.AppendInt\<close> with base 10).
\<close>

fun formatBits :: "nat \<Rightarrow> string" where
  "formatBits u = (if u < 10 then [hex u] else formatBits (u div 10) @ [hex (u mod 10)])"

declare formatBits.simps [simp del]

definition AppendInt :: "int \<Rightarrow> string" where
  "AppendInt i = (if i < 0 then CHR ''-'' # formatBits (nat (- i)) else formatBits (nat i))"

text \<open>
  The encoder passes the bytes a \<^verbatim>\<open>MarshalJSON\<close> method returns through
  \<^verbatim>\<open>compact\<close>, which escapes \<^verbatim>\<open><\<close>, \<^verbatim>\<open>>\<close> and \<^verbatim>\<open>&\<close> when the
  encoder escapes HTML and copies every other byte. Its syntax check and its removal of
  white space between tokens are left out: the bytes come from \<^verbatim>\<open>json.Marshal\<close>
  and the separators \<^verbatim>\<open>MarshalJSON\<close> writes.
\<close>

definition compact :: "bool \<Rightarrow> string \<Rightarrow> string" where
  "compact escape src =
     concat (map (\<lambda>c. if escape \<and> (c = CHR ''<'' \<or> c = CHR ''>'' \<or> c = CHR ''&'')
                       then [backslash, CHR ''u'', CHR ''0'', CHR ''0'',
                             hex (of_char c div 16), hex (of_char c mod 16)]
                       else [c]) src)"

text \<open>
  \<open>marshal floatEncoder escapeHTML v\<close> is the encoder's output for \<open>v\<close>, or its error.
  \<open>floatEncoder\<close> prints a \<^verbatim>\<open>float64\<close> or fails (NaN and the infinities).
  \<open>arrayLoop\<close> is the loop of the library's array encoder. \<open>MarshalJSON\<close> and its loop
  \<open>MarshalJSON_loop\<close> are the method of \<^verbatim>\<open>orderedMap\<close> in the source: \<open>i\<close> is the
  loop index, \<open>buf\<close> the buffer, and \<^verbatim>\<open>json.Marshal\<close> is \<open>marshal\<close> with HTML
  escaping on, the default of the library.
\<close>

fun marshal :: "(float64 \<Rightarrow> error + string) \<Rightarrow> bool \<Rightarrow> Value \<Rightarrow> error + string"
  and arrayLoop :: "(float64 \<Rightarrow> error + string) \<Rightarrow> bool \<Rightarrow> nat \<Rightarrow> string \<Rightarrow> Value list \<Rightarrow> error + string"
  and MarshalJSON :: "(float64 \<Rightarrow> error + string) \<Rightarrow> mapEntry list \<Rightarrow> error + string"
  and MarshalJSON_loop :: "(float64 \<Rightarrow> error + string) \<Rightarrow> nat \<Rightarrow> string \<Rightarrow> mapEntry list \<Rightarrow> error + string"
where
  "marshal floatEncoder escapeHTML Null = Inr ''null''"
| "marshal floatEncoder escapeHTML (Bool b) = Inr (if b then ''true'' else ''false'')"
| "marshal floatEncoder escapeHTML (Integer i) = Inr (AppendInt i)"
| "marshal floatEncoder escapeHTML (Float f) = floatEncoder f"
| "marshal floatEncoder escapeHTML (Text s) = Inr (appendString escapeHTML s)"
| "marshal floatEncoder escapeHTML (Slice items) =
     (case arrayLoop floatEncoder escapeHTML 0 ''['' items of
        Inl err \<Rightarrow> Inl err
      | Inr buf \<Rightarrow> Inr (buf @ '']''))"
| "marshal floatEncoder escapeHTML (orderedMap entries) =
     (case MarshalJSON floatEncoder entries of
        Inl err \<Rightarrow> Inl (''json: error calling MarshalJSON for type main.orderedMap: '' @ err)
      | Inr b \<Rightarrow> Inr (compact escapeHTML b))"
| "arrayLoop floatEncoder escapeHTML i buf [] = Inr buf"
| "arrayLoop floatEncoder escapeHTML i buf (item # items) =
     (case marshal floatEncoder escapeHTML item of
        Inl err \<Rightarrow> Inl err
      | Inr b \<Rightarrow>
          arrayLoop floatEncoder escapeHTML (i + 1)
            ((if i > 0 then buf @ '','' else buf) @ b) items)"
| "MarshalJSON floatEncoder entries =
     (case MarshalJSON_loop floatEncoder 0 ''{'' entries of
        Inl err \<Rightarrow> Inl err
      | Inr buf \<Rightarrow> Inr (buf @ ''}''))"
| "MarshalJSON_loop floatEncoder i buf [] = Inr buf"
| "MarshalJSON_loop floatEncoder i buf (entry # entries) =
     (case marshal floatEncoder True (Text (fst entry)) of
        Inl err \<Rightarrow> Inl err
      | Inr keyBytes \<Rightarrow>
          (case marshal floatEncoder True (snd entry) of
             Inl err \<Rightarrow> Inl err
           | Inr valBytes \<Rightarrow>
               MarshalJSON_loop floatEncoder (i + 1)
                 ((if i > 0 then buf @ '','' else buf) @ keyBytes @ '':'' @ valBytes) entries))"

section \<open>The driver\<close>

text \<open>
  \<^verbatim>\<open>Encoder.Encode\<close>: the value is marshalled whole, a newline is added, and only
  then are the bytes written; an encoding error writes nothing.
\<close>

definition Encode :: "(float64 \<Rightarrow> error + string) \<Rightarrow> bool \<Rightarrow> Value \<Rightarrow> error + string" where
  "Encode floatEncoder escapeHTML v =
     (case marshal floatEncoder escapeHTML v of
        Inl err \<Rightarrow> Inl err
      | Inr b \<Rightarrow> Inr (b @ [CHR 0x0A]))"

text \<open>
  \<^verbatim>\<open>run\<close> returns what it wrote to standard output and its error, or panics.
  \<open>stdin\<close> is the result of \<^verbatim>\<open>io.ReadAll(os.Stdin)\<close>; \<open>unmarshal data\<close> is the
  error of \<^verbatim>\<open>yaml.Unmarshal(data, &node)\<close> or the node it leaves, starting from the
  zero node. Writes to standard output are taken to succeed.
\<close>

definition run ::
  "(string \<Rightarrow> error + Node) \<Rightarrow> (Node \<Rightarrow> error + Value) \<Rightarrow> (float64 \<Rightarrow> error + string)
     \<Rightarrow> error + string \<Rightarrow> panic + (string \<times> error option)" where
  "run unmarshal decode floatEncoder stdin =
     (case stdin of
        Inl err \<Rightarrow> Inr ([], Some (''read stdin: '' @ err))
      | Inr data \<Rightarrow>
          (case unmarshal data of
             Inl err \<Rightarrow> Inr ([], Some (''parse yaml: '' @ err))
           | Inr node \<Rightarrow>
               if length (Content node) = 0 then Inr ([], Some ''empty document'')
               else
                 (case convertNode decode (Content node ! 0) of
                    Inl p \<Rightarrow> Inl p
                  | Inr normalized \<Rightarrow>
                      (case Encode floatEncoder False normalized of
                         Inl err \<Rightarrow> Inr ([], Some (''write json: '' @ err))
                       | Inr out \<Rightarrow> Inr (out, None)))))"

text \<open>
  The process as \<^verbatim>\<open>main\<close> leaves it: the two output streams and the exit status.
  A panic of \<^verbatim>\<open>run\<close> is not recovered and ends the process abnormally.
\<close>

record process =
  stdout :: string
  stderr :: string
  status :: nat

definition main ::
  "(string \<Rightarrow> error + Node) \<Rightarrow> (Node \<Rightarrow> error + Value) \<Rightarrow> (float64 \<Rightarrow> error + string)
     \<Rightarrow> error + string \<Rightarrow> panic + process" where
  "main unmarshal decode floatEncoder stdin =
     (case run unmarshal decode floatEncoder stdin of
        Inl p \<Rightarrow> Inl p
      | Inr (out, None) \<Rightarrow> Inr \<lparr>stdout = out, stderr = [], status = 0\<rparr>
      | Inr (out, Some err) \<Rightarrow>
          Inr \<lparr>stdout = out, stderr = ''yaml_to_json: '' @ err @ [CHR 0x0A], status = 1\<rparr>)"

section \<open>Scalar resolution and the parser\<close>

text \<open>
  Modelled from the spec: the lexical forms of numbers, which \<^verbatim>\<open>gopkg.in/yaml.v3\<close>
  decides and which are not under \<^verbatim>\<open>src/\<close>. \<open>integerForm\<close> reads an integer
  lexical form, here a decimal numeral with an optional sign and no leading zero that
  fits 64 bits; a float lexical form starts with a digit, a sign or a point
  (\<open>numberStart\<close>).
\<close>

definition isDigit :: "char \<Rightarrow> bool" where
  "isDigit c \<longleftrightarrow> 48 \<le> (of_char c :: nat) \<and> (of_char c :: nat) \<le> 57"

definition digitsValue :: "string \<Rightarrow> nat" where
  "digitsValue s = foldl (\<lambda>a c. 10 * a + (of_char c - 48)) 0 s"

definition decimalForm :: "string \<Rightarrow> bool" where
  "decimalForm s \<longleftrightarrow> s \<noteq> [] \<and> list_all isDigit s \<and> (s = ''0'' \<or> hd s \<noteq> CHR ''0'')"

definition integerForm :: "string \<Rightarrow> int option" where
  "integerForm s =
     (case s of
        [] \<Rightarrow> None
      | c # r \<Rightarrow>
          if c = CHR ''-'' then
            (if decimalForm r \<and> digitsValue r \<le> 2 ^ 63 then Some (- int (digitsValue r)) else None)
          else if c = CHR ''+'' then
            (if decimalForm r \<and> digitsValue r < 2 ^ 64 then Some (int (digitsValue r)) else None)
          else
            (if decimalForm s \<and> digitsValue s < 2 ^ 64 then Some (int (digitsValue s)) else None))"

definition numberStart :: "string \<Rightarrow> bool" where
  "numberStart s =
     (case s of
        [] \<Rightarrow> False
      | c # r \<Rightarrow> isDigit c \<or> c = CHR ''-'' \<or> c = CHR ''+'' \<or> c = CHR ''.'')"

text \<open>
  Modelled from the spec: \<^verbatim>\<open>Node.Decode\<close> of \<^verbatim>\<open>gopkg.in/yaml.v3\<close>, which
  resolves a scalar, is not under \<^verbatim>\<open>src/\<close>. By the spec a scalar's raw text
  resolves to a native type: \<^verbatim>\<open>null\<close>, \<^verbatim>\<open>~\<close> and the empty text to null,
  the \<^verbatim>\<open>true\<close>/\<^verbatim>\<open>false\<close> family to a boolean, integer and float lexical
  forms to a number, anything else to the literal text; quoting prevents the resolution.
  The families are spelt \<^verbatim>\<open>null Null NULL\<close>, \<^verbatim>\<open>true True TRUE\<close> and
  \<^verbatim>\<open>false False FALSE\<close>. \<open>ParseFloat\<close> (of \<^verbatim>\<open>strconv\<close>, a parameter)
  reads the float lexical forms. Block scalars are strings like quoted ones. The model is
  of \<^verbatim>\<open>Decode\<close> on scalar nodes, the only nodes \<^verbatim>\<open>convertNode\<close> decodes, and it
  never fails.
\<close>

definition Decode :: "(string \<Rightarrow> float64 option) \<Rightarrow> Node \<Rightarrow> error + Value" where
  "Decode ParseFloat n =
     (if Style n \<noteq> PlainStyle then Inr (Text (Value n))
      else if Value n = ''true'' \<or> Value n = ''True'' \<or> Value n = ''TRUE'' then Inr (Bool True)
      else if Value n = ''false'' \<or> Value n = ''False'' \<or> Value n = ''FALSE'' then Inr (Bool False)
      else if Value n = [] \<or> Value n = ''~'' \<or> Value n = ''null'' \<or> Value n = ''Null''
              \<or> Value n = ''NULL'' then Inr Null
      else
        (case integerForm (Value n) of
           Some i \<Rightarrow> Inr (Integer i)
         | None \<Rightarrow>
             if numberStart (Value n) then
               (case ParseFloat (Value n) of
                  Some f \<Rightarrow> Inr (Float f)
                | None \<Rightarrow> Inr (Text (Value n)))
             else Inr (Text (Value n))))"

text \<open>
  Modelled from the spec: \<^verbatim>\<open>yaml.Unmarshal\<close> of \<^verbatim>\<open>gopkg.in/yaml.v3\<close> is not
  under \<^verbatim>\<open>src/\<close>. By the spec the input is a single YAML document or a YAML stream
  whose first document is used. \<open>documents\<close> reads the stream into its document nodes;
  \<open>UnmarshalFirst\<close> leaves the first of them in the node, and the zero node when the
  stream holds no document.
\<close>

definition UnmarshalFirst :: "(string \<Rightarrow> error + Node list) \<Rightarrow> string \<Rightarrow> error + Node" where
  "UnmarshalFirst documents data =
     (case documents data of
        Inl err \<Rightarrow> Inl err
      | Inr [] \<Rightarrow> Inr (Node ZeroKind PlainStyle [] [])
      | Inr (doc # rest) \<Rightarrow> Inr doc)"

section \<open>Notions used in the statements\<close>

text \<open>
  The key/value pairs of a mapping node's children, in source order.
\<close>

fun pairs :: "'a list \<Rightarrow> ('a \<times> 'a) list" where
  "pairs [] = []"
| "pairs [k] = []"
| "pairs (k # v # rest) = (k, v) # pairs rest"

text \<open>
  Texts joined by a separator.
\<close>

fun joinWith :: "'a list \<Rightarrow> 'a list list \<Rightarrow> 'a list" where
  "joinWith sep [] = []"
| "joinWith sep [x] = x"
| "joinWith sep (x # y # ys) = x @ sep @ joinWith sep (y # ys)"

text \<open>
  Every mapping node of the tree has an even number of children: the parser gives each
  key its value.
\<close>

fun evenMappings :: "Node \<Rightarrow> bool" where
  "evenMappings (Node kind st v content) \<longleftrightarrow>
     (if kind = MappingNode then even (length content) else True) \<and> list_all evenMappings content"

text \<open>
  The float encoder prints number text: digits, a sign, a point, an exponent mark.
\<close>

definition floatText :: "(float64 \<Rightarrow> error + string) \<Rightarrow> bool" where
  "floatText floatEncoder \<longleftrightarrow>
     (\<forall>f s. floatEncoder f = Inr s \<longrightarrow> set s \<subseteq> set ''0123456789+-.e'')"

text \<open>
  The bytes an encoder never writes as they are: control characters, and \<^verbatim>\<open><\<close>,
  \<^verbatim>\<open>>\<close>, \<^verbatim>\<open>&\<close> when it escapes HTML.
\<close>

definition escaped :: "bool \<Rightarrow> char \<Rightarrow> bool" where
  "escaped escapeHTML c \<longleftrightarrow>
     (of_char c :: nat) < 0x20 \<or> (escapeHTML \<and> (c = CHR ''<'' \<or> c = CHR ''>'' \<or> c = CHR ''&''))"

text \<open>
  The document the parser builds for the four lines
  \<^verbatim>\<open>name: Widget\<close>, \<^verbatim>\<open>count: 3\<close>, \<^verbatim>\<open>tags: [a, b]\<close>, \<^verbatim>\<open>active: true\<close>.
\<close>

definition widgetYAML :: string where
  "widgetYAML =
     ''name: Widget'' @ [CHR 0x0A] @ ''count: 3'' @ [CHR 0x0A] @ ''tags: [a, b]'' @ [CHR 0x0A]
       @ ''active: true'' @ [CHR 0x0A]"

definition scalar :: "string \<Rightarrow> Node" where
  "scalar text = Node ScalarNode PlainStyle text []"

definition widgetDocument :: Node where
  "widgetDocument =
     Node DocumentNode PlainStyle []
       [Node MappingNode PlainStyle []
          [scalar ''name'', scalar ''Widget'',
           scalar ''count'', scalar ''3'',
           scalar ''tags'', Node SequenceNode PlainStyle [] [scalar ''a'', scalar ''b''],
           scalar ''active'', scalar ''true'']]"

section \<open>Conversion: auxiliary facts\<close>

lemma length_pairs: "length (pairs xs) = length xs div 2"
  by (induction xs rule: pairs.induct) auto

lemma pairs_nth:
  "j < length (pairs xs) \<Longrightarrow> pairs xs ! j = (xs ! (2 * j), xs ! (2 * j + 1))"
proof (induction xs arbitrary: j rule: pairs.induct)
  case (3 k v rest)
  then show ?case by (cases j) auto
qed auto

lemma convertEntries_Inr:
  "convertEntries dec i n content = Inr es \<Longrightarrow>
     even (length content) \<and> length es = length (pairs content)
     \<and> map fst es = map (Value \<circ> fst) (pairs content)
     \<and> (\<forall>j < length es. convertNode dec (snd (pairs content ! j)) = Inr (snd (es ! j)))"
proof (induction content arbitrary: i es rule: pairs.induct)
  case (3 k v rest)
  from "3.prems" obtain val es' where
    v: "convertNode dec v = Inr val" and
    r: "convertEntries dec (i + 2) n rest = Inr es'" and
    es: "es = (Value k, val) # es'"
    by (auto split: sum.splits)
  from "3.IH"[OF r] have ih:
    "even (length rest)" "length es' = length (pairs rest)"
    "map fst es' = map (Value \<circ> fst) (pairs rest)"
    "\<forall>j < length es'. convertNode dec (snd (pairs rest ! j)) = Inr (snd (es' ! j))"
    by auto
  have "\<forall>j < length es. convertNode dec (snd (pairs (k # v # rest) ! j)) = Inr (snd (es ! j))"
  proof (intro allI impI)
    fix j assume "j < length es"
    then show "convertNode dec (snd (pairs (k # v # rest) ! j)) = Inr (snd (es ! j))"
      using v ih(4) es by (cases j) auto
  qed
  then show ?case using ih es by simp
next
  case 1
  then show ?case by simp
next
  case (2 x)
  then show ?case by simp
qed

lemma convertItems_Inr:
  "convertItems dec xs = Inr vs \<Longrightarrow>
     length vs = length xs \<and> (\<forall>j < length xs. convertNode dec (xs ! j) = Inr (vs ! j))"
proof (induction xs arbitrary: vs)
  case Nil
  then show ?case by simp
next
  case (Cons x xs)
  from Cons.prems obtain v vs' where
    v: "convertNode dec x = Inr v" and r: "convertItems dec xs = Inr vs'" and vs: "vs = v # vs'"
    by (auto split: sum.splits)
  from Cons.IH[OF r] show ?case using v vs by (auto simp: nth_Cons split: nat.splits)
qed

lemma convertItems_total:
  "(\<And>x. x \<in> set xs \<Longrightarrow> \<exists>v. convertNode dec x = Inr v) \<Longrightarrow> \<exists>vs. convertItems dec xs = Inr vs"
proof (induction xs)
  case Nil
  then show ?case by simp
next
  case (Cons x xs)
  then obtain v where "convertNode dec x = Inr v" by (meson list.set_intros(1))
  moreover from Cons obtain vs where "convertItems dec xs = Inr vs" by (meson list.set_intros(2))
  ultimately show ?case by simp
qed

lemma convertEntries_total:
  "even (length xs) \<Longrightarrow> (\<And>x. x \<in> set xs \<Longrightarrow> \<exists>v. convertNode dec x = Inr v)
     \<Longrightarrow> \<exists>es. convertEntries dec i n xs = Inr es"
proof (induction xs arbitrary: i rule: pairs.induct)
  case (3 k v rest)
  obtain val where "convertNode dec v = Inr val" using "3.prems"(2)[of v] by auto
  moreover have "\<exists>es. convertEntries dec (i + 2) n rest = Inr es"
    using "3.IH"[of "i + 2"] "3.prems" by auto
  ultimately show ?case by auto
next
  case 1
  then show ?case by simp
next
  case (2 x)
  then show ?case by simp
qed

lemma convertNode_total_aux: "evenMappings n \<Longrightarrow> \<exists>v. convertNode dec n = Inr v"
proof (induction n)
  case (Node kind st v content)
  have kids: "\<And>x. x \<in> set content \<Longrightarrow> \<exists>v. convertNode dec x = Inr v"
    using Node by (auto simp: list_all_iff)
  show ?case
  proof (cases kind)
    case MappingNode
    with Node.prems have "even (length content)" by simp
    then obtain es where "convertEntries dec 0 (length content) content = Inr es"
      using convertEntries_total[of content dec 0 "length content"] kids by blast
    with MappingNode show ?thesis by simp
  next
    case SequenceNode
    obtain vs where "convertItems dec content = Inr vs"
      using convertItems_total[of content dec] kids by blast
    with SequenceNode show ?thesis by simp
  next
    case DocumentNode
    then show ?thesis using kids by (cases content) auto
  next
    case ScalarNode
    then show ?thesis by (auto split: sum.splits)
  qed auto
qed

section \<open>Serialization: auxiliary facts\<close>

lemma joinWith_Cons: "joinWith sep (x # xs) = x @ concat (map (\<lambda>t. sep @ t) xs)"
  by (induction xs arbitrary: x) auto

lemma MarshalJSON_loop_pos:
  "0 < i \<Longrightarrow> MarshalJSON_loop fe i buf es = Inr out \<Longrightarrow>
     \<exists>js. length js = length es
       \<and> (\<forall>k < length es. marshal fe True (snd (es ! k)) = Inr (js ! k))
       \<and> out = buf @ concat (map (\<lambda>t. '','' @ t) (map2 (\<lambda>e j. appendString True (fst e) @ '':'' @ j) es js))"
proof (induction es arbitrary: i buf)
  case Nil
  then show ?case by simp
next
  case (Cons e es)
  from Cons.prems obtain vb where
    vb: "marshal fe True (snd e) = Inr vb" and
    r: "MarshalJSON_loop fe (i + 1) (buf @ '','' @ appendString True (fst e) @ '':'' @ vb) es = Inr out"
    by (auto split: sum.splits)
  have "0 < i + 1" by simp
  from Cons.IH[OF this r] obtain js where
    js: "length js = length es"
      "\<forall>k < length es. marshal fe True (snd (es ! k)) = Inr (js ! k)"
      "out = (buf @ '','' @ appendString True (fst e) @ '':'' @ vb)
         @ concat (map (\<lambda>t. '','' @ t) (map2 (\<lambda>e j. appendString True (fst e) @ '':'' @ j) es js))"
    by blast
  have "\<forall>k < length (e # es). marshal fe True (snd ((e # es) ! k)) = Inr ((vb # js) ! k)"
    using vb js(2) by (auto simp: nth_Cons split: nat.splits)
  then show ?case using js(1,3)
    by (intro exI[of _ "vb # js"]) simp
qed

lemma MarshalJSON_Inr:
  assumes "MarshalJSON fe es = Inr out"
  shows "\<exists>js. length js = length es
       \<and> (\<forall>k < length es. marshal fe True (snd (es ! k)) = Inr (js ! k))
       \<and> out = ''{'' @ joinWith '','' (map2 (\<lambda>e j. appendString True (fst e) @ '':'' @ j) es js) @ ''}''"
proof (cases es)
  case Nil
  with assms show ?thesis by auto
next
  case (Cons e es')
  from assms Cons obtain vb buf where
    vb: "marshal fe True (snd e) = Inr vb" and
    r: "MarshalJSON_loop fe 1 (''{'' @ appendString True (fst e) @ '':'' @ vb) es' = Inr buf" and
    out: "out = buf @ ''}''"
    by (auto split: sum.splits)
  have "0 < (1::nat)" by simp
  from MarshalJSON_loop_pos[OF this r] obtain js where
    js: "length js = length es'"
      "\<forall>k < length es'. marshal fe True (snd (es' ! k)) = Inr (js ! k)"
      "buf = (''{'' @ appendString True (fst e) @ '':'' @ vb)
         @ concat (map (\<lambda>t. '','' @ t) (map2 (\<lambda>e j. appendString True (fst e) @ '':'' @ j) es' js))"
    by blast
  have "\<forall>k < length es. marshal fe True (snd (es ! k)) = Inr ((vb # js) ! k)"
    using vb js(2) Cons by (auto simp: nth_Cons split: nat.splits)
  then show ?thesis using js(1,3) out Cons
    by (intro exI[of _ "vb # js"]) (simp add: joinWith_Cons)
qed

lemma hex_digit: "n < 16 \<Longrightarrow> hex n \<in> set ''0123456789abcdef''"
  unfolding hex_def by (rule nth_mem) simp

lemma escaped_not_hex: "escaped e c \<Longrightarrow> n < 16 \<Longrightarrow> hex n \<noteq> c"
  using hex_digit[of n] by (auto simp: escaped_def)

lemma escaped_ascii: "escaped e c \<Longrightarrow> (of_char c :: nat) < 0x80"
  by (auto simp: escaped_def)

lemma escaped_not_copied:
  "escaped e c \<Longrightarrow> htmlSafeSet b \<or> (\<not> e \<and> safeSet b) \<Longrightarrow> b \<noteq> c"
  by (auto simp: escaped_def htmlSafeSet_def safeSet_def)

lemma escaped_escapeByte: "escaped e c \<Longrightarrow> c \<notin> set (escapeByte b)"
proof -
  assume c: "escaped e c"
  have "(of_char b :: nat) div 16 < 16" "(of_char b :: nat) mod 16 < 16"
    using nat_of_char_less_256[of b] by arith+
  then have "hex (of_char b div 16) \<noteq> c" "hex (of_char b mod 16) \<noteq> c"
    using escaped_not_hex[OF c] by auto
  moreover have "c \<noteq> backslash" "c \<noteq> quote" "c \<noteq> CHR ''u''" "c \<noteq> CHR ''0''" "c \<noteq> CHR ''b''"
    "c \<noteq> CHR ''f''" "c \<noteq> CHR ''n''" "c \<noteq> CHR ''r''" "c \<noteq> CHR ''t''"
    using c by (auto simp: escaped_def backslash_def quote_def)
  ultimately show ?thesis by (auto simp: escapeByte_def)
qed

lemma rune_bytes:
  assumes "DecodeRuneInString s = Some sz" "x \<in> set (take sz s)"
  shows "(0x80 :: nat) \<le> of_char x"
proof -
  from assms(1) obtain s0 rest n lo hi where
    s: "s = s0 # rest" and f: "first s0 = Some (n, lo, hi)"
    by (auto simp: DecodeRuneInString_def split: list.splits option.splits)
  from f have b0: "(0x80 :: nat) \<le> of_char s0" and lo: "0x80 \<le> lo"
    by (auto simp: first_def Let_def split: if_splits)
  from assms(2) obtain i where i: "i < sz" "i < length s" "x = s ! i"
    by (auto simp: in_set_conv_nth)
  from assms(1) s f lo have
    "sz \<le> 4" "1 < sz \<longrightarrow> (0x80 :: nat) \<le> of_char (s ! 1)"
    "2 < sz \<longrightarrow> (0x80 :: nat) \<le> of_char (s ! 2)"
    "3 < sz \<longrightarrow> (0x80 :: nat) \<le> of_char (s ! 3)"
    by (auto simp: DecodeRuneInString_def continuation_def split: if_splits)
  moreover have "i = 0 \<or> i = 1 \<or> i = 2 \<or> i = 3" using i(1) \<open>sz \<le> 4\<close> by auto
  ultimately show ?thesis using i b0 s by auto
qed

lemma escaped_appendStringLoop: "escaped e c \<Longrightarrow> c \<notin> set (appendStringLoop e s)"
proof (induction e s rule: appendStringLoop.induct)
  case (1 e)
  then show ?case by simp
next
  case (2 e b src)
  note c = "2.prems"
  have basic: "c \<noteq> backslash" "c \<noteq> CHR ''u''" "c \<noteq> CHR ''f''" "c \<noteq> CHR ''d''" "c \<noteq> CHR ''2''" "c \<noteq> CHR ''0''"
    using c by (auto simp: escaped_def backslash_def)
  show ?case
  proof (cases "(of_char b :: nat) < 0x80")
    case True
    then show ?thesis
      using "2.IH"(1)[OF True c] escaped_not_copied[OF c, of b] escaped_escapeByte[OF c, of b]
      by auto
  next
    case False
    show ?thesis
    proof (cases "DecodeRuneInString (b # src)")
      case None
      then show ?thesis using False "2.IH"(2)[OF False None c] basic by auto
    next
      case (Some sz)
      have bytes: "c \<notin> set (take sz (b # src))"
        using rune_bytes[OF Some, of c] escaped_ascii[OF c] by auto
      have hexc: "hex (of_char (src ! 1) mod 16) \<noteq> c"
        using escaped_not_hex[OF c, of "of_char (src ! 1) mod 16"] by simp
      show ?thesis
      proof (cases "take 3 (b # src) = [CHR 0xE2, CHR 0x80, CHR 0xA8]
                \<or> take 3 (b # src) = [CHR 0xE2, CHR 0x80, CHR 0xA9]")
        case True
        have "appendStringLoop e (b # src) =
                [backslash, CHR ''u'', CHR ''2'', CHR ''0'', CHR ''2'', hex (of_char (src ! 1) mod 16)]
                  @ appendStringLoop e (drop sz (b # src))"
          by (simp only: appendStringLoop.simps(2) False Some True if_False if_True option.simps)
        then show ?thesis
          using "2.IH"(3)[OF False Some True c] basic hexc by simp
      next
        case F: False
        have "appendStringLoop e (b # src) = take sz (b # src) @ appendStringLoop e (drop sz (b # src))"
          by (simp only: appendStringLoop.simps(2) False Some F if_False if_True option.simps)
        then show ?thesis
          using "2.IH"(4)[OF False Some F c] bytes by simp
      qed
    qed
  qed
qed

lemma hex_decimal: "k < 10 \<Longrightarrow> hex k \<in> set ''0123456789''"
proof -
  assume "k < 10"
  then have "k = 0 \<or> k = 1 \<or> k = 2 \<or> k = 3 \<or> k = 4 \<or> k = 5 \<or> k = 6 \<or> k = 7 \<or> k = 8 \<or> k = 9"
    by arith
  then show ?thesis by (auto simp: hex_def)
qed

lemma formatBits_digits: "set (formatBits u) \<subseteq> set ''0123456789''"
proof (induction u rule: formatBits.induct)
  case (1 u)
  show ?case
  proof (cases "u < 10")
    case True
    have "formatBits u = [hex u]" using True by (subst formatBits.simps) simp
    then show ?thesis using hex_decimal[OF True] by simp
  next
    case False
    have "formatBits u = formatBits (u div 10) @ [hex (u mod 10)]"
      using False by (subst formatBits.simps) simp
    moreover have "hex (u mod 10) \<in> set ''0123456789''" by (rule hex_decimal) simp
    ultimately show ?thesis using "1.IH"[OF False] by simp
  qed
qed




lemma escaped_AppendInt: "escaped e c \<Longrightarrow> c \<notin> set (AppendInt i)"
proof -
  assume c: "escaped e c"
  then have d: "c \<notin> set ''0123456789''" and m: "c \<noteq> CHR ''-''" by (auto simp: escaped_def)
  have f: "\<And>u. c \<notin> set (formatBits u)" using d formatBits_digits by blast
  show ?thesis
  proof (cases "i < 0")
    case True
    then have "AppendInt i = CHR ''-'' # formatBits (nat (- i))" by (simp add: AppendInt_def)
    then show ?thesis using f m by simp
  next
    case False
    then have "AppendInt i = formatBits (nat i)" by (simp add: AppendInt_def)
    then show ?thesis using f by simp
  qed
qed



lemma escaped_compact: "escaped e c \<Longrightarrow> c \<notin> set src \<Longrightarrow> c \<notin> set (compact e' src)"
proof (induction src)
  case Nil
  then show ?case by (simp add: compact_def)
next
  case (Cons a src)
  have "(of_char a :: nat) div 16 < 16" "(of_char a :: nat) mod 16 < 16"
    using nat_of_char_less_256[of a] by arith+
  then have "hex (of_char a div 16) \<noteq> c" "hex (of_char a mod 16) \<noteq> c"
    using escaped_not_hex[OF Cons.prems(1)] by auto
  moreover have "c \<noteq> backslash" "c \<noteq> CHR ''u''" "c \<noteq> CHR ''0''"
    using Cons.prems(1) by (auto simp: escaped_def backslash_def)
  moreover have "c \<noteq> a" "c \<notin> set (compact e' src)" using Cons by auto
  moreover have "compact e' (a # src) =
      (if e' \<and> (a = CHR ''<'' \<or> a = CHR ''>'' \<or> a = CHR ''&'')
       then [backslash, CHR ''u'', CHR ''0'', CHR ''0'', hex (of_char a div 16), hex (of_char a mod 16)]
       else [a]) @ compact e' src"
    by (simp add: compact_def)
  ultimately show ?case by simp
qed



lemma escaped_floatText: "floatText fe \<Longrightarrow> escaped e c \<Longrightarrow> fe f = Inr s \<Longrightarrow> c \<notin> set s"
proof -
  assume ft: "floatText fe" and c: "escaped e c" and f: "fe f = Inr s"
  from ft f have "set s \<subseteq> set ''0123456789+-.e''" unfolding floatText_def by blast
  moreover from c have "c \<notin> set ''0123456789+-.e''" by (auto simp: escaped_def)
  ultimately show ?thesis by blast
qed



lemma escaped_True: "escaped e c \<Longrightarrow> escaped True c"
  by (auto simp: escaped_def)



lemma escaped_appendString: "escaped e c \<Longrightarrow> c \<notin> set (appendString e s)"
proof -
  assume c: "escaped e c"
  then have "c \<noteq> quote" by (auto simp: escaped_def quote_def)
  then show ?thesis using escaped_appendStringLoop[OF c, of s] by (simp add: appendString_def)
qed

lemma marshal_escaped_all:
  "floatText fe \<longrightarrow> escaped esc c \<longrightarrow> (\<forall>s. marshal fe esc v = Inr s \<longrightarrow> c \<notin> set s)"
  "floatText fe \<longrightarrow> escaped esc c \<longrightarrow>
     (\<forall>s. arrayLoop fe esc i buf items = Inr s \<longrightarrow> c \<notin> set buf \<longrightarrow> c \<notin> set s)"
  "floatText fe \<longrightarrow> escaped True c \<longrightarrow> (\<forall>s. MarshalJSON fe es = Inr s \<longrightarrow> c \<notin> set s)"
  "floatText fe \<longrightarrow> escaped True c \<longrightarrow>
     (\<forall>s. MarshalJSON_loop fe i' buf' es' = Inr s \<longrightarrow> c \<notin> set buf' \<longrightarrow> c \<notin> set s)"
proof (induction fe esc v and fe esc i buf items and fe es and fe i' buf' es'
    rule: marshal_arrayLoop_MarshalJSON_MarshalJSON_loop.induct)
  case (1 fe esc)
  then show ?case by (auto simp: escaped_def)
next
  case (2 fe esc b)
  then show ?case by (auto simp: escaped_def)
next
  case (3 fe esc i)
  then show ?case using escaped_AppendInt by auto
next
  case (4 fe esc f)
  then show ?case using escaped_floatText by auto
next
  case (5 fe esc s)
  then show ?case using escaped_appendString by auto
next
  case (6 fe esc items)
  show ?case
  proof (intro impI allI)
    fix s assume ft: "floatText fe" and c: "escaped esc c" and m: "marshal fe esc (Slice items) = Inr s"
    from m obtain buf where b: "arrayLoop fe esc 0 ''['' items = Inr buf" and s: "s = buf @ '']''"
      by (auto split: sum.splits)
    have "c \<notin> set ''[''" "c \<noteq> CHR '']''" using c by (auto simp: escaped_def)
    with 6 ft c b s show "c \<notin> set s" by auto
  qed
next
  case (7 fe esc entries)
  show ?case
  proof (intro impI allI)
    fix s assume ft: "floatText fe" and c: "escaped esc c" and m: "marshal fe esc (orderedMap entries) = Inr s"
    from m obtain b where b: "MarshalJSON fe entries = Inr b" and s: "s = compact esc b"
      by (auto split: sum.splits)
    from 7 ft escaped_True[OF c] b have "c \<notin> set b" by auto
    with s show "c \<notin> set s" using escaped_compact[OF c] by auto
  qed
next
  case (8 fe esc i buf)
  then show ?case by auto
next
  case (9 fe esc i buf item items)
  show ?case
  proof (intro impI allI)
    fix s assume ft: "floatText fe" and c: "escaped esc c"
      and m: "arrayLoop fe esc i buf (item # items) = Inr s" and cb: "c \<notin> set buf"
    from m obtain b where b: "marshal fe esc item = Inr b"
      and r: "arrayLoop fe esc (i + 1) ((if i > 0 then buf @ '','' else buf) @ b) items = Inr s"
      by (auto split: sum.splits)
    from "9.IH"(1) ft c b have "c \<notin> set b" by auto
    moreover have "c \<noteq> CHR '',''" using c by (auto simp: escaped_def)
    ultimately have "c \<notin> set ((if i > 0 then buf @ '','' else buf) @ b)" using cb by auto
    with "9.IH"(2)[OF b] ft c r show "c \<notin> set s" by blast
  qed
next
  case (10 fe entries)
  show ?case
  proof (intro impI allI)
    fix s assume ft: "floatText fe" and c: "escaped True c" and m: "MarshalJSON fe entries = Inr s"
    from m obtain buf where b: "MarshalJSON_loop fe 0 ''{'' entries = Inr buf" and s: "s = buf @ ''}''"
      by (auto split: sum.splits)
    have "c \<notin> set ''{''" "c \<noteq> CHR ''}''" using c by (auto simp: escaped_def)
    with 10 ft c b s show "c \<notin> set s" by auto
  qed
next
  case (11 fe i buf)
  then show ?case by auto
next
  case (12 fe i buf entry entries)
  show ?case
  proof (intro impI allI)
    fix s assume ft: "floatText fe" and c: "escaped True c"
      and m: "MarshalJSON_loop fe i buf (entry # entries) = Inr s" and cb: "c \<notin> set buf"
    from m obtain kb vb where kb: "marshal fe True (Text (fst entry)) = Inr kb"
      and vb: "marshal fe True (snd entry) = Inr vb"
      and r: "MarshalJSON_loop fe (i + 1) ((if i > 0 then buf @ '','' else buf) @ kb @ '':'' @ vb) entries = Inr s"
      by (auto split: sum.splits)
    from "12.IH"(1) ft c kb have "c \<notin> set kb" by auto
    moreover from "12.IH"(2)[OF kb] ft c vb have "c \<notin> set vb" by auto
    moreover have "c \<noteq> CHR '',''" "c \<noteq> CHR '':''" using c by (auto simp: escaped_def)
    ultimately have "c \<notin> set ((if i > 0 then buf @ '','' else buf) @ kb @ '':'' @ vb)" using cb by auto
    with "12.IH"(3)[OF kb vb] ft c r show "c \<notin> set s" by blast
  qed
qed

lemma marshal_escaped:
  "floatText fe \<Longrightarrow> escaped esc c \<Longrightarrow> marshal fe esc v = Inr s \<Longrightarrow> c \<notin> set s"
  using marshal_escaped_all(1) by blast

lemma MarshalJSON_escaped:
  "floatText fe \<Longrightarrow> escaped True c \<Longrightarrow> MarshalJSON fe es = Inr s \<Longrightarrow> c \<notin> set s"
  using marshal_escaped_all(3) by blast

lemma compact_id:
  "CHR ''<'' \<notin> set src \<Longrightarrow> CHR ''>'' \<notin> set src \<Longrightarrow> CHR ''&'' \<notin> set src \<Longrightarrow> compact e src = src"
  by (induction src) (auto simp: compact_def)

lemma compact_False: "compact False src = src"
  by (induction src) (auto simp: compact_def)

lemma marshal_orderedMap:
  assumes "floatText fe" "marshal fe esc (orderedMap es) = Inr out"
  shows "MarshalJSON fe es = Inr out"
proof -
  from assms(2) obtain b where b: "MarshalJSON fe es = Inr b" and out: "out = compact esc b"
    by (auto split: sum.splits)
  have "CHR ''<'' \<notin> set b" "CHR ''>'' \<notin> set b" "CHR ''&'' \<notin> set b"
    using MarshalJSON_escaped[OF assms(1) _ b] by (auto simp: escaped_def)
  then show ?thesis using b out compact_id by simp
qed

text \<open>
  No object is ever written with a literal \<^verbatim>\<open><\<close>, \<^verbatim>\<open>>\<close> or
  \<^verbatim>\<open>&\<close>, whatever the setting of the encoder that writes it.
\<close>

lemma orderedMap_html_escaped:
  assumes "floatText fe" "marshal fe esc (orderedMap es) = Inr out"
  shows "CHR ''<'' \<notin> set out \<and> CHR ''>'' \<notin> set out \<and> CHR ''&'' \<notin> set out"
proof -
  have m: "MarshalJSON fe es = Inr out" by (rule marshal_orderedMap[OF assms])
  have "escaped True (CHR ''<'')" "escaped True (CHR ''>'')" "escaped True (CHR ''&'')"
    by (simp_all add: escaped_def)
  then show ?thesis using MarshalJSON_escaped[OF assms(1) _ m] by blast
qed

section \<open>The driver and the examples: auxiliary facts\<close>

lemma mapping_entries:
  assumes "convertNode decode (Node MappingNode st v content) = Inr val"
  shows "\<exists>es. val = orderedMap es \<and> convertEntries decode 0 (length content) content = Inr es"
  using assms by (auto split: sum.splits)

lemma mapping_entry_nth:
  assumes "convertNode decode (Node MappingNode st v content) = Inr val"
  shows "length content = 2 * length (Entries val)"
    and "i < length (Entries val) \<Longrightarrow> fst (Entries val ! i) = Value (content ! (2 * i))"
    and "i < length (Entries val) \<Longrightarrow>
           convertNode decode (content ! (2 * i + 1)) = Inr (snd (Entries val ! i))"
proof -
  from mapping_entries[OF assms] obtain es where
    val: "val = orderedMap es" and es: "convertEntries decode 0 (length content) content = Inr es"
    by blast
  from convertEntries_Inr[OF es] have
    ev: "even (length content)" and len: "length es = length (pairs content)"
    and keys: "map fst es = map (Value \<circ> fst) (pairs content)"
    and vals: "\<forall>j < length es. convertNode decode (snd (pairs content ! j)) = Inr (snd (es ! j))"
    by auto
  show "length content = 2 * length (Entries val)"
    using ev len val by (auto simp: length_pairs)
  {
    assume i: "i < length (Entries val)"
    then have i': "i < length (pairs content)" using len val by simp
    have "fst (es ! i) = map fst es ! i" using i val by simp
    also have "\<dots> = (Value \<circ> fst) (pairs content ! i)" using keys i' by simp
    finally show "fst (Entries val ! i) = Value (content ! (2 * i))"
      using pairs_nth[OF i'] val by simp
    show "convertNode decode (content ! (2 * i + 1)) = Inr (snd (Entries val ! i))"
      using vals i val pairs_nth[OF i'] by auto
  }
qed

lemma map2_keys:
  assumes "length es = length ps" "length js = length es"
    and "\<And>i. i < length es \<Longrightarrow> fst (es ! i) = Value (fst (ps ! i))"
  shows "map2 (\<lambda>e j. appendString True (fst e) @ '':'' @ j) es js
       = map2 (\<lambda>p j. appendString True (Value (fst p)) @ '':'' @ j) ps js"
  using assms by (intro nth_equalityI) auto

lemma appendString_quoted:
  "hd (appendString e s) = quote \<and> last (appendString e s) = quote"
  by (simp add: appendString_def)

lemma decimalForm_digit: "decimalForm s \<Longrightarrow> isDigit (hd s)"
  by (cases s) (auto simp: decimalForm_def)

lemma integerForm_start: "integerForm s = Some i \<Longrightarrow> numberStart s"
  by (cases s) (auto simp: integerForm_def numberStart_def dest: decimalForm_digit split: if_splits)

lemma numberStart_families:
  assumes "numberStart s"
  shows "s \<noteq> ''true''" "s \<noteq> ''True''" "s \<noteq> ''TRUE''" "s \<noteq> ''false''" "s \<noteq> ''False''"
    "s \<noteq> ''FALSE''" "s \<noteq> []" "s \<noteq> ''~''" "s \<noteq> ''null''" "s \<noteq> ''Null''" "s \<noteq> ''NULL''"
  using assms by (auto simp: numberStart_def isDigit_def)

lemma main_success:
  assumes "main unmarshal decode fe stdin = Inr p" and "status p = 0"
  shows "\<exists>data node v j. stdin = Inr data \<and> unmarshal data = Inr node \<and> Content node \<noteq> []
       \<and> convertNode decode (Content node ! 0) = Inr v \<and> marshal fe False v = Inr j
       \<and> stdout p = j @ [CHR 0x0A] \<and> stderr p = []"
  using assms
  by (auto simp: main_def run_def Encode_def split: sum.splits option.splits if_splits prod.splits)

lemma main_run_ok:
  assumes "unmarshal data = Inr node" "Content node = child # cs"
    "convertNode decode child = Inr v" "marshal fe False v = Inr j"
  shows "main unmarshal decode fe (Inr data) = Inr \<lparr>stdout = j @ [CHR 0x0A], stderr = [], status = 0\<rparr>"
  using assms by (simp add: main_def run_def Encode_def)

lemma appendStringLoop_safe: "list_all htmlSafeSet s \<Longrightarrow> appendStringLoop e s = s"
proof (induction s)
  case Nil
  then show ?case by simp
next
  case (Cons b src)
  then have h: "htmlSafeSet b" and r: "appendStringLoop e src = src" by simp_all
  from h have "(of_char b :: nat) < 0x80" by (simp add: htmlSafeSet_def safeSet_def)
  then show ?case using h r by simp
qed

lemma appendString_safe:
  "list_all htmlSafeSet s \<Longrightarrow> appendString e s = [quote] @ s @ [quote]"
  by (simp add: appendString_def appendStringLoop_safe)

lemma mapping_members:
  assumes "floatText fe"
    and "convertNode decode (Node MappingNode st v content) = Inr val"
    and "marshal fe esc val = Inr out"
  shows "\<exists>js. length js = length (Entries val)
       \<and> (\<forall>i < length js. marshal fe True (snd (Entries val ! i)) = Inr (js ! i))
       \<and> out = ''{'' @ joinWith '',''
              (map2 (\<lambda>e j. appendString True (fst e) @ '':'' @ j) (Entries val) js) @ ''}''"
proof -
  from mapping_entries[OF assms(2)] obtain es where val: "val = orderedMap es" by blast
  have m: "MarshalJSON fe es = Inr out"
    using marshal_orderedMap[OF assms(1)] assms(3) val by simp
  from MarshalJSON_Inr[OF m] obtain js where
    "length js = length es"
    "\<forall>k < length es. marshal fe True (snd (es ! k)) = Inr (js ! k)"
    "out = ''{'' @ joinWith '','' (map2 (\<lambda>e j. appendString True (fst e) @ '':'' @ j) es js) @ ''}''"
    by blast
  then show ?thesis using val by auto
qed

text \<open>
  Equations that evaluate the encoder and the resolver on concrete inputs.
\<close>

lemmas encode_simps = compact_def appendString_def htmlSafeSet_def safeSet_def quote_def
  backslash_def AppendInt_def formatBits.simps hex_def escapeByte_def

lemmas decode_simps = scalar_def Decode_def integerForm_def decimalForm_def isDigit_def
  digitsValue_def

lemma widget_convert:
  "convertNode (Decode ParseFloat) (Content widgetDocument ! 0)
     = Inr (orderedMap [(''name'', Text ''Widget''), (''count'', Integer 3),
            (''tags'', Slice [Text ''a'', Text ''b'']), (''active'', Bool True)])"
  by (simp add: widgetDocument_def decode_simps numberStart_def)

lemma widget_marshal:
  \<open>marshal fe False (orderedMap [(''name'', Text ''Widget''), (''count'', Integer 3),
            (''tags'', Slice [Text ''a'', Text ''b'']), (''active'', Bool True)])
     = Inr ''{"name":"Widget","count":3,"tags":["a","b"],"active":true}''\<close>
  by (simp add: encode_simps)

section \<open>Properties\<close>

text \<open>
  C1. Order preservation. For every mapping node, at any depth, the JSON object written
  for it holds one member per key/value pair of the node, in source order: the keys of the
  converted \<open>orderedMap\<close> are the raw texts of the key nodes in the order of
  \<open>pairs content\<close>, and the text written is \<^verbatim>\<open>{\<close>, then for the i-th pair
  the encoded i-th key, a colon and the text \<open>js ! i\<close> written for the converted i-th
  value node, the members separated by commas, then \<^verbatim>\<open>}\<close>. The value nodes are
  arbitrary, so the statement applies again to every mapping nested in them (their texts
  are those of \<^verbatim>\<open>json.Marshal\<close>, \<open>marshal\<close> with \<open>True\<close>).
\<close>

theorem mapping_order_preserved:
  assumes "floatText floatEncoder"
    and "convertNode decode (Node MappingNode st v content) = Inr val"
    and "marshal floatEncoder escapeHTML val = Inr out"
  shows "length content = 2 * length (pairs content)
     \<and> map fst (Entries val) = map (Value \<circ> fst) (pairs content)
     \<and> (\<exists>js. length js = length (pairs content)
           \<and> (\<forall>i < length js. \<exists>vi.
                 convertNode decode (snd (pairs content ! i)) = Inr vi
                 \<and> marshal floatEncoder True vi = Inr (js ! i))
           \<and> out = ''{'' @ joinWith '',''
                  (map2 (\<lambda>p j. appendString True (Value (fst p)) @ '':'' @ j) (pairs content) js)
                @ ''}'')"
proof -
  from mapping_entries[OF assms(2)] obtain es where
    val: "val = orderedMap es" and es: "convertEntries decode 0 (length content) content = Inr es"
    by blast
  from convertEntries_Inr[OF es] have
    ev: "even (length content)" and len: "length es = length (pairs content)"
    and keys: "map fst es = map (Value \<circ> fst) (pairs content)"
    and vals: "\<forall>j < length es. convertNode decode (snd (pairs content ! j)) = Inr (snd (es ! j))"
    by auto
  have m: "MarshalJSON floatEncoder es = Inr out"
    using marshal_orderedMap[OF assms(1)] assms(3) val by simp
  from MarshalJSON_Inr[OF m] obtain js where
    js: "length js = length es"
    and jv: "\<forall>k < length es. marshal floatEncoder True (snd (es ! k)) = Inr (js ! k)"
    and out: "out = ''{'' @ joinWith '','' (map2 (\<lambda>e j. appendString True (fst e) @ '':'' @ j) es js) @ ''}''"
    by blast
  have kn: "fst (es ! i) = Value (fst (pairs content ! i))" if "i < length es" for i
  proof -
    have "fst (es ! i) = map fst es ! i" using that by simp
    also have "\<dots> = (Value \<circ> fst) (pairs content ! i)" using keys that len by simp
    finally show ?thesis by simp
  qed
  have out': "out = ''{'' @ joinWith '',''
                  (map2 (\<lambda>p j. appendString True (Value (fst p)) @ '':'' @ j) (pairs content) js)
                @ ''}''"
    using out map2_keys[OF len js kn] by simp
  have each: "\<forall>i < length js. \<exists>vi.
                 convertNode decode (snd (pairs content ! i)) = Inr vi
                 \<and> marshal floatEncoder True vi = Inr (js ! i)"
    using vals jv js by auto
  have "length content = 2 * length (pairs content)" using ev by (auto simp: length_pairs)
  moreover have "map fst (Entries val) = map (Value \<circ> fst) (pairs content)" using keys val by simp
  moreover have "length js = length (pairs content)" using js len by simp
  ultimately show ?thesis using each out' by blast
qed

theorem mapping_order_preserved_witness:
  \<open>floatText (\<lambda>_. Inl ''unsupported value'')
   \<and> convertNode (Decode (\<lambda>_. None))
        (Node MappingNode PlainStyle []
          [scalar ''b'', Node MappingNode PlainStyle [] [scalar ''z'', scalar ''1'', scalar ''a'', scalar ''2''],
           scalar ''a'', scalar ''x''])
       = Inr (orderedMap [(''b'', orderedMap [(''z'', Integer 1), (''a'', Integer 2)]), (''a'', Text ''x'')])
   \<and> marshal (\<lambda>_. Inl ''unsupported value'') False
        (orderedMap [(''b'', orderedMap [(''z'', Integer 1), (''a'', Integer 2)]), (''a'', Text ''x'')])
       = Inr ''{"b":{"z":1,"a":2},"a":"x"}''
   \<and> map fst (Entries (orderedMap [(''b'', orderedMap [(''z'', Integer 1), (''a'', Integer 2)]), (''a'', Text ''x'')]))
       = [''b'', ''a'']\<close>
proof -
  let ?content = "[scalar ''b'', Node MappingNode PlainStyle [] [scalar ''z'', scalar ''1'', scalar ''a'', scalar ''2''],
           scalar ''a'', scalar ''x'']"
  let ?val = "orderedMap [(''b'', orderedMap [(''z'', Integer 1), (''a'', Integer 2)]), (''a'', Text ''x'')]"
  have f: "floatText (\<lambda>_. Inl ''unsupported value'')" by (simp add: floatText_def)
  have c: "convertNode (Decode (\<lambda>_. None)) (Node MappingNode PlainStyle [] ?content) = Inr ?val"
    by (simp add: decode_simps)
  have m: \<open>marshal (\<lambda>_. Inl ''unsupported value'') False ?val = Inr ''{"b":{"z":1,"a":2},"a":"x"}''\<close>
    by (simp add: encode_simps)
  have "map fst (Entries ?val) = map (Value \<circ> fst) (pairs ?content)"
    using mapping_order_preserved[OF f c m] by blast
  then have "map fst (Entries ?val) = [''b'', ''a'']" by (simp add: scalar_def)
  with f c m show ?thesis by blast
qed

text \<open>
  C2. Unescaped characters. The claim asks that a string holding \<^verbatim>\<open><\<close>,
  \<^verbatim>\<open>>\<close> or \<^verbatim>\<open>&\<close> is written with these characters as they are, wherever
  it stands. \<^verbatim>\<open>run\<close> turns HTML escaping off on its encoder, but
  \<^verbatim>\<open>orderedMap.MarshalJSON\<close> encodes keys and values with \<^verbatim>\<open>json.Marshal\<close>,
  which escapes HTML. For the document \<^verbatim>\<open>a: "<b>&"\<close> the program writes the
  string inside the mapping with \<^verbatim>\<open>\u003c\<close>, \<^verbatim>\<open>\u003e\<close> and
  \<^verbatim>\<open>\u0026\<close>; the same string inside a sequence is written as it is.
\<close>

theorem html_escaped_inside_mapping:
  \<open>main (\<lambda>_. Inr (Node DocumentNode PlainStyle []
            [Node MappingNode PlainStyle [] [scalar ''a'', Node ScalarNode DoubleQuotedStyle ''<b>&'' []]]))
      (Decode (\<lambda>_. None)) (\<lambda>_. Inl ''unsupported value'') (Inr ''a: "<b>&"'')
     = Inr \<lparr>stdout = ''{"a":"'' @ [backslash] @ ''u003cb'' @ [backslash] @ ''u003e'' @ [backslash]
                       @ ''u0026"}'' @ [CHR 0x0A],
            stderr = [], status = 0\<rparr>
   \<and> main (\<lambda>_. Inr (Node DocumentNode PlainStyle []
            [Node SequenceNode PlainStyle [] [Node ScalarNode DoubleQuotedStyle ''<b>&'' []]]))
      (Decode (\<lambda>_. None)) (\<lambda>_. Inl ''unsupported value'') (Inr ''- "<b>&"'')
     = Inr \<lparr>stdout = ''["<b>&"]'' @ [CHR 0x0A], stderr = [], status = 0\<rparr>\<close>
proof -
  have c1: "convertNode (Decode (\<lambda>_. None))
      (Node MappingNode PlainStyle [] [scalar ''a'', Node ScalarNode DoubleQuotedStyle ''<b>&'' []])
     = Inr (orderedMap [(''a'', Text ''<b>&'')])"
    by (simp add: decode_simps)
  have m1: \<open>marshal (\<lambda>_. Inl ''unsupported value'') False (orderedMap [(''a'', Text ''<b>&'')])
     = Inr (''{"a":"'' @ [backslash] @ ''u003cb'' @ [backslash] @ ''u003e'' @ [backslash] @ ''u0026"}'')\<close>
    by (simp add: encode_simps)
  have c2: "convertNode (Decode (\<lambda>_. None))
      (Node SequenceNode PlainStyle [] [Node ScalarNode DoubleQuotedStyle ''<b>&'' []])
     = Inr (Slice [Text ''<b>&''])"
    by (simp add: decode_simps)
  have m2: \<open>marshal (\<lambda>_. Inl ''unsupported value'') False (Slice [Text ''<b>&'']) = Inr ''["<b>&"]''\<close>
    by (simp add: encode_simps)
  show ?thesis
    using c1 m1 c2 m2 by (simp add: main_def run_def Encode_def)
qed

text \<open>
  C3. Scalar typing, against the resolver modelled from the spec (\<open>Decode\<close>). For a
  scalar node, \<open>convertNode\<close> gives: a boolean for the plain texts \<^verbatim>\<open>true\<close> and
  \<^verbatim>\<open>false\<close>; null for the plain texts \<^verbatim>\<open>null\<close>, \<^verbatim>\<open>~\<close> and the
  empty text; an integer for a plain integer lexical form; a float for a plain float
  lexical form; the text itself, as a string, for a quoted scalar whatever its text; and the
  text itself for any other plain scalar.
\<close>

theorem scalar_typing:
  assumes "Kind n = ScalarNode"
  shows "(Style n = PlainStyle \<and> Value n = ''true'' \<longrightarrow> convertNode (Decode ParseFloat) n = Inr (Bool True))
     \<and> (Style n = PlainStyle \<and> Value n = ''false'' \<longrightarrow> convertNode (Decode ParseFloat) n = Inr (Bool False))
     \<and> (Style n = PlainStyle \<and> (Value n = ''null'' \<or> Value n = ''~'' \<or> Value n = []) \<longrightarrow>
          convertNode (Decode ParseFloat) n = Inr Null)
     \<and> (Style n = PlainStyle \<and> integerForm (Value n) = Some i \<longrightarrow>
          convertNode (Decode ParseFloat) n = Inr (Integer i))
     \<and> (Style n = PlainStyle \<and> numberStart (Value n) \<and> integerForm (Value n) = None
          \<and> ParseFloat (Value n) = Some f \<longrightarrow>
          convertNode (Decode ParseFloat) n = Inr (Float f))
     \<and> (Style n = DoubleQuotedStyle \<or> Style n = SingleQuotedStyle \<longrightarrow>
          convertNode (Decode ParseFloat) n = Inr (Text (Value n)))
     \<and> (Style n = PlainStyle
          \<and> Value n \<notin> set [''true'', ''True'', ''TRUE'', ''false'', ''False'', ''FALSE'',
                              [], ''~'', ''null'', ''Null'', ''NULL'']
          \<and> integerForm (Value n) = None
          \<and> (numberStart (Value n) \<longrightarrow> ParseFloat (Value n) = None) \<longrightarrow>
          convertNode (Decode ParseFloat) n = Inr (Text (Value n)))"
proof -
  obtain st v content where n: "n = Node ScalarNode st v content"
    using assms by (cases n) auto
  have conv: "convertNode (Decode ParseFloat) n =
      (case Decode ParseFloat n of Inr out \<Rightarrow> Inr out | Inl err \<Rightarrow> Inr (Text (Value n)))"
    unfolding n by (simp split: sum.splits)
  show ?thesis
    unfolding conv
    using integerForm_start[of "Value n"] numberStart_families[of "Value n"]
    by (auto simp: Decode_def split: option.splits)
qed

theorem scalar_typing_witness:
  \<open>Kind (scalar ''42'') = ScalarNode
   \<and> convertNode (Decode (\<lambda>_. None)) (scalar ''true'') = Inr (Bool True)
   \<and> convertNode (Decode (\<lambda>_. None)) (scalar ''~'') = Inr Null
   \<and> integerForm ''42'' = Some 42
   \<and> convertNode (Decode (\<lambda>_. None)) (scalar ''42'') = Inr (Integer 42)
   \<and> marshal (\<lambda>_. Inl ''unsupported value'') False (Integer 42) = Inr ''42''
   \<and> convertNode (Decode (\<lambda>_. None)) (Node ScalarNode DoubleQuotedStyle ''42'' []) = Inr (Text ''42'')
   \<and> marshal (\<lambda>_. Inl ''unsupported value'') False (Text ''42'') = Inr ''"42"''
   \<and> convertNode (Decode (\<lambda>_. None)) (scalar ''Widget'') = Inr (Text ''Widget'')\<close>
proof -
  have i: "integerForm ''42'' = Some 42" by (simp add: decode_simps)
  have m: \<open>marshal (\<lambda>_. Inl ''unsupported value'') False (Integer 42) = Inr ''42''\<close>
    \<open>marshal (\<lambda>_. Inl ''unsupported value'') False (Text ''42'') = Inr ''"42"''\<close>
    by (simp_all add: encode_simps)
  have w: "convertNode (Decode (\<lambda>_. None)) (scalar ''Widget'') = Inr (Text ''Widget'')"
    by (simp add: decode_simps numberStart_def)
  from scalar_typing[of "scalar ''42''" "\<lambda>_. None" 42]
    scalar_typing[of "scalar ''true''" "\<lambda>_. None"]
    scalar_typing[of "scalar ''~''" "\<lambda>_. None"]
    scalar_typing[of "Node ScalarNode DoubleQuotedStyle ''42'' []" "\<lambda>_. None"]
    i m w
  show ?thesis by (simp add: scalar_def)
qed

text \<open>
  C4. Totality of \<open>convertNode\<close>. As stated (no node shape makes it fail, a mapping
  node with an odd number of children included) the claim does not hold: on such a node
  \<^verbatim>\<open>node.Content[i+1]\<close> is out of range and the conversion panics
  (\<open>convertNode_odd_mapping_panics\<close>). What holds: on every tree whose mapping nodes
  all have an even number of children, as the parser builds them, \<open>convertNode\<close>
  returns a value, whatever \<^verbatim>\<open>Decode\<close> does; a scalar whose \<^verbatim>\<open>Decode\<close>
  fails becomes its raw text as a string; alias nodes and nodes of the zero kind become
  null.
\<close>

theorem convertNode_total:
  "evenMappings n \<Longrightarrow>
     (\<exists>v. convertNode decode n = Inr v)
     \<and> (Kind n = ScalarNode \<and> (\<exists>err. decode n = Inl err) \<longrightarrow>
          convertNode decode n = Inr (Text (Value n)))
     \<and> (Kind n = AliasNode \<or> Kind n = ZeroKind \<longrightarrow> convertNode decode n = Inr Null)"
proof (intro conjI impI)
  assume "evenMappings n"
  then show "\<exists>v. convertNode decode n = Inr v" by (rule convertNode_total_aux)
next
  assume "Kind n = ScalarNode \<and> (\<exists>err. decode n = Inl err)"
  then show "convertNode decode n = Inr (Text (Value n))" by (cases n) auto
next
  assume "Kind n = AliasNode \<or> Kind n = ZeroKind"
  then show "convertNode decode n = Inr Null" by (cases n) auto
qed

theorem convertNode_total_witness:
  "evenMappings
     (Node MappingNode PlainStyle []
        [Node ScalarNode PlainStyle ''k'' [], Node AliasNode PlainStyle ''x'' [],
         Node ScalarNode PlainStyle ''s'' [], Node ScalarNode PlainStyle ''1e'' []])
   \<and> convertNode (\<lambda>n. Inl ''cannot decode'')
        (Node MappingNode PlainStyle []
           [Node ScalarNode PlainStyle ''k'' [], Node AliasNode PlainStyle ''x'' [],
            Node ScalarNode PlainStyle ''s'' [], Node ScalarNode PlainStyle ''1e'' []])
      = Inr (orderedMap [(''k'', Null), (''s'', Text ''1e'')])
   \<and> evenMappings (Node ScalarNode PlainStyle ''1e'' [])
   \<and> Kind (Node ScalarNode PlainStyle ''1e'' []) = ScalarNode
   \<and> convertNode (\<lambda>n. Inl ''cannot decode'') (Node ScalarNode PlainStyle ''1e'' []) = Inr (Text ''1e'')"
  using convertNode_total[of "Node MappingNode PlainStyle []
           [Node ScalarNode PlainStyle ''k'' [], Node AliasNode PlainStyle ''x'' [],
            Node ScalarNode PlainStyle ''s'' [], Node ScalarNode PlainStyle ''1e'' []]"
          "\<lambda>n. Inl ''cannot decode''"]
    convertNode_total[of "Node ScalarNode PlainStyle ''1e'' []" "\<lambda>n. Inl ''cannot decode''"]
  by simp

theorem convertNode_odd_mapping_panics:
  "convertNode (\<lambda>n. Inr (Text (Value n)))
     (Node MappingNode PlainStyle [] [Node ScalarNode PlainStyle ''a'' []])
   = Inl (IndexOutOfRange 1 1)"
  by simp

text \<open>
  C5. Duplicate keys. The object converted from a mapping node has exactly one entry per
  key/value pair of the node, the i-th entry holding the raw text of the i-th key and the
  conversion of the i-th value: no test on keys is made, so repeated keys give repeated
  entries, in source order. The JSON object written for it, by either encoder setting,
  is \<^verbatim>\<open>{\<close>, the members joined by commas, \<^verbatim>\<open>}\<close>, with exactly one
  member per pair, the i-th member being the encoded i-th key, a colon and the text written
  for the i-th value: nothing is merged or dropped. For \<^verbatim>\<open>a: 1\<close>,
  \<^verbatim>\<open>a: 2\<close> the text written is \<^verbatim>\<open>{"a":1,"a":2}\<close>, with the two members
  \<^verbatim>\<open>"a":1\<close> and \<^verbatim>\<open>"a":2\<close>.
\<close>

theorem duplicate_keys_kept:
  assumes "convertNode decode (Node MappingNode st v content) = Inr val"
  shows "length (Entries val) = length (pairs content)
     \<and> length content = 2 * length (Entries val)
     \<and> (\<forall>i < length (Entries val).
           fst (Entries val ! i) = Value (fst (pairs content ! i))
           \<and> convertNode decode (snd (pairs content ! i)) = Inr (snd (Entries val ! i)))
     \<and> (\<forall>floatEncoder escapeHTML out.
           floatText floatEncoder \<and> marshal floatEncoder escapeHTML val = Inr out \<longrightarrow>
           (\<exists>members. length members = length (pairs content)
              \<and> (\<forall>i < length members. \<exists>vi ji.
                    convertNode decode (snd (pairs content ! i)) = Inr vi
                    \<and> marshal floatEncoder True vi = Inr ji
                    \<and> members ! i = appendString True (Value (fst (pairs content ! i))) @ '':'' @ ji)
              \<and> out = ''{'' @ joinWith '','' members @ ''}''))"
proof -
  have len: "length content = 2 * length (Entries val)" by (rule mapping_entry_nth(1)[OF assms])
  then have lp: "length (Entries val) = length (pairs content)" by (simp add: length_pairs)
  have ent: "\<forall>i < length (Entries val).
           fst (Entries val ! i) = Value (fst (pairs content ! i))
           \<and> convertNode decode (snd (pairs content ! i)) = Inr (snd (Entries val ! i))"
    using mapping_entry_nth(2,3)[OF assms] lp by (simp add: pairs_nth)
  have emit: "\<exists>members. length members = length (pairs content)
              \<and> (\<forall>i < length members. \<exists>vi ji.
                    convertNode decode (snd (pairs content ! i)) = Inr vi
                    \<and> marshal fe True vi = Inr ji
                    \<and> members ! i = appendString True (Value (fst (pairs content ! i))) @ '':'' @ ji)
              \<and> out = ''{'' @ joinWith '','' members @ ''}''"
    if h: "floatText fe \<and> marshal fe esc val = Inr out" for fe esc out
  proof -
    from h have ft: "floatText fe" and m: "marshal fe esc val = Inr out" by simp_all
    from mapping_members[OF ft assms m] obtain js where
      js: "length js = length (Entries val)"
      and jv: "\<forall>i < length js. marshal fe True (snd (Entries val ! i)) = Inr (js ! i)"
      and out: "out = ''{'' @ joinWith '',''
              (map2 (\<lambda>e j. appendString True (fst e) @ '':'' @ j) (Entries val) js) @ ''}''"
      by blast
    let ?members = "map2 (\<lambda>e j. appendString True (fst e) @ '':'' @ j) (Entries val) js"
    have l: "length ?members = length (pairs content)" using js lp by simp
    have "\<exists>vi ji. convertNode decode (snd (pairs content ! i)) = Inr vi
                    \<and> marshal fe True vi = Inr ji
                    \<and> ?members ! i = appendString True (Value (fst (pairs content ! i))) @ '':'' @ ji"
      if i: "i < length ?members" for i
    proof -
      from i have i': "i < length (Entries val)" "i < length js" using js by simp_all
      have "?members ! i = appendString True (fst (Entries val ! i)) @ '':'' @ js ! i"
        using i' by simp
      then have "?members ! i = appendString True (Value (fst (pairs content ! i))) @ '':'' @ js ! i"
        using ent i'(1) by simp
      moreover have "convertNode decode (snd (pairs content ! i)) = Inr (snd (Entries val ! i))"
        using ent i'(1) by simp
      moreover have "marshal fe True (snd (Entries val ! i)) = Inr (js ! i)" using jv i'(2) by simp
      ultimately show ?thesis by blast
    qed
    with l out show ?thesis by blast
  qed
  from len lp ent emit show ?thesis by blast
qed

theorem duplicate_keys_kept_witness:
  \<open>convertNode (Decode (\<lambda>_. None))
      (Node MappingNode PlainStyle [] [scalar ''a'', scalar ''1'', scalar ''a'', scalar ''2''])
     = Inr (orderedMap [(''a'', Integer 1), (''a'', Integer 2)])
   \<and> length (Entries (orderedMap [(''a'', Integer 1), (''a'', Integer 2)]))
       = length (pairs [scalar ''a'', scalar ''1'', scalar ''a'', scalar ''2''])
   \<and> floatText (\<lambda>_. Inl ''unsupported value'')
   \<and> marshal (\<lambda>_. Inl ''unsupported value'') False (orderedMap [(''a'', Integer 1), (''a'', Integer 2)])
       = Inr ''{"a":1,"a":2}''
   \<and> (\<exists>members. length members = 2 \<and> members ! 0 = ''"a":1'' \<and> members ! 1 = ''"a":2''
         \<and> ''{"a":1,"a":2}'' = ''{'' @ joinWith '','' members @ ''}'')\<close>
proof -
  let ?content = "[scalar ''a'', scalar ''1'', scalar ''a'', scalar ''2'']"
  let ?fe = "\<lambda>_ :: float64. (Inl ''unsupported value'' :: error + string)"
  have c: "convertNode (Decode (\<lambda>_. None)) (Node MappingNode PlainStyle [] ?content)
     = Inr (orderedMap [(''a'', Integer 1), (''a'', Integer 2)])"
    by (simp add: decode_simps)
  have f: "floatText ?fe" by (simp add: floatText_def)
  have m: \<open>marshal ?fe False (orderedMap [(''a'', Integer 1), (''a'', Integer 2)])
       = Inr ''{"a":1,"a":2}''\<close>
    by (simp add: encode_simps)
  note t = duplicate_keys_kept[OF c]
  from t have l: "length (Entries (orderedMap [(''a'', Integer 1), (''a'', Integer 2)])) = length (pairs ?content)"
    by blast
  from t f m obtain members where
    ml: "length members = length (pairs ?content)"
    and mi: "\<forall>i < length members. \<exists>vi ji.
                    convertNode (Decode (\<lambda>_. None)) (snd (pairs ?content ! i)) = Inr vi
                    \<and> marshal ?fe True vi = Inr ji
                    \<and> members ! i = appendString True (Value (fst (pairs ?content ! i))) @ '':'' @ ji"
    and mo: \<open>''{"a":1,"a":2}'' = ''{'' @ joinWith '','' members @ ''}''\<close>
    by blast
  have l2: "length members = 2" using ml by simp
  have i0: "0 < length members" and i1: "1 < length members" using l2 by simp_all
  have m0: \<open>members ! 0 = ''"a":1''\<close>
    using mi[rule_format, OF i0] by (auto simp: decode_simps encode_simps)
  have m1: \<open>members ! 1 = ''"a":2''\<close>
    using mi[rule_format, OF i1] by (auto simp: decode_simps encode_simps)
  from l2 m0 m1 mo have \<open>\<exists>members. length members = 2 \<and> members ! 0 = ''"a":1'' \<and> members ! 1 = ''"a":2''
         \<and> ''{"a":1,"a":2}'' = ''{'' @ joinWith '','' members @ ''}''\<close>
    by blast
  with c l f m show ?thesis by blast
qed

text \<open>
  C6. Keys are raw text. The key of the i-th entry is the \<^verbatim>\<open>Value\<close> field of the
  i-th key node, as it is, and the keys are the same for any two decoders, since
  \<^verbatim>\<open>Decode\<close> is never applied to a key node. In the JSON object written for the
  mapping, by either encoder setting, the i-th member is that text encoded as a JSON string
  (\<open>appendString\<close>: the text between two quotes), a colon and the text of the i-th
  value; when the key holds only characters the encoder copies (\<open>htmlSafeSet\<close>), the
  member starts with the key itself between quotes. A key such as \<^verbatim>\<open>42\<close> or
  \<^verbatim>\<open>true\<close>, which \<open>Decode\<close> resolves to an integer or a boolean, is written
  \<^verbatim>\<open>"42"\<close> or \<^verbatim>\<open>"true"\<close>.
\<close>

theorem keys_verbatim:
  assumes "convertNode decode (Node MappingNode st v content) = Inr val"
    and "i < length (Entries val)"
  shows "fst (Entries val ! i) = Value (content ! (2 * i))
     \<and> marshal floatEncoder True (Text (fst (Entries val ! i)))
         = Inr (appendString True (Value (content ! (2 * i))))
     \<and> hd (appendString True (Value (content ! (2 * i)))) = quote
     \<and> last (appendString True (Value (content ! (2 * i)))) = quote
     \<and> (\<forall>decode' val'. convertNode decode' (Node MappingNode st v content) = Inr val'
           \<longrightarrow> map fst (Entries val') = map fst (Entries val))
     \<and> (\<forall>fe escapeHTML out.
           floatText fe \<and> marshal fe escapeHTML val = Inr out \<longrightarrow>
           (\<exists>members ji. length members = length (Entries val)
              \<and> out = ''{'' @ joinWith '','' members @ ''}''
              \<and> marshal fe True (snd (Entries val ! i)) = Inr ji
              \<and> members ! i = appendString True (Value (content ! (2 * i))) @ '':'' @ ji))
     \<and> (list_all htmlSafeSet (Value (content ! (2 * i))) \<longrightarrow>
           appendString True (Value (content ! (2 * i)))
             = [quote] @ Value (content ! (2 * i)) @ [quote])"
proof -
  have k: "fst (Entries val ! i) = Value (content ! (2 * i))"
    by (rule mapping_entry_nth(2)[OF assms])
  have indep: "map fst (Entries val') = map fst (Entries val)"
    if c': "convertNode decode' (Node MappingNode st v content) = Inr val'" for decode' val'
  proof (rule nth_equalityI)
    show len: "length (map fst (Entries val')) = length (map fst (Entries val))"
      using mapping_entry_nth(1)[OF assms(1)] mapping_entry_nth(1)[OF c'] by simp
    fix j assume "j < length (map fst (Entries val'))"
    then have j: "j < length (Entries val')" "j < length (Entries val)" using len by simp_all
    show "map fst (Entries val') ! j = map fst (Entries val) ! j"
      using mapping_entry_nth(2)[OF c' j(1)] mapping_entry_nth(2)[OF assms(1) j(2)] j by simp
  qed
  have emit: "\<exists>members ji. length members = length (Entries val)
              \<and> out = ''{'' @ joinWith '','' members @ ''}''
              \<and> marshal fe True (snd (Entries val ! i)) = Inr ji
              \<and> members ! i = appendString True (Value (content ! (2 * i))) @ '':'' @ ji"
    if h: "floatText fe \<and> marshal fe esc val = Inr out" for fe esc out
  proof -
    from h have ft: "floatText fe" and m: "marshal fe esc val = Inr out" by simp_all
    from mapping_members[OF ft assms(1) m] obtain js where
      js: "length js = length (Entries val)"
      and jv: "\<forall>i < length js. marshal fe True (snd (Entries val ! i)) = Inr (js ! i)"
      and out: "out = ''{'' @ joinWith '',''
              (map2 (\<lambda>e j. appendString True (fst e) @ '':'' @ j) (Entries val) js) @ ''}''"
      by blast
    let ?members = "map2 (\<lambda>e j. appendString True (fst e) @ '':'' @ j) (Entries val) js"
    have "length ?members = length (Entries val)" using js by simp
    moreover have "marshal fe True (snd (Entries val ! i)) = Inr (js ! i)"
      using jv js assms(2) by simp
    moreover have "?members ! i = appendString True (Value (content ! (2 * i))) @ '':'' @ js ! i"
      using js assms(2) k by simp
    ultimately show ?thesis using out by blast
  qed
  have safe: "list_all htmlSafeSet (Value (content ! (2 * i))) \<longrightarrow>
           appendString True (Value (content ! (2 * i)))
             = [quote] @ Value (content ! (2 * i)) @ [quote]"
    using appendString_safe by blast
  have q: "hd (appendString True (Value (content ! (2 * i)))) = quote"
    "last (appendString True (Value (content ! (2 * i)))) = quote"
    using appendString_quoted by blast+
  have t: "marshal floatEncoder True (Text (fst (Entries val ! i)))
         = Inr (appendString True (Value (content ! (2 * i))))"
    using k by simp
  from k t q indep emit safe show ?thesis by blast
qed

theorem keys_verbatim_witness:
  \<open>convertNode (Decode (\<lambda>_. None))
      (Node MappingNode PlainStyle [] [scalar ''42'', scalar ''x'', scalar ''true'', scalar ''~''])
     = Inr (orderedMap [(''42'', Text ''x''), (''true'', Null)])
   \<and> Decode (\<lambda>_. None) (scalar ''42'') = Inr (Integer 42)
   \<and> Decode (\<lambda>_. None) (scalar ''true'') = Inr (Bool True)
   \<and> fst (Entries (orderedMap [(''42'', Text ''x''), (''true'', Null)]) ! 0) = ''42''
   \<and> floatText (\<lambda>_. Inl ''unsupported value'')
   \<and> marshal (\<lambda>_. Inl ''unsupported value'') False (orderedMap [(''42'', Text ''x''), (''true'', Null)])
       = Inr ''{"42":"x","true":null}''
   \<and> (\<exists>members. length members = 2 \<and> members ! 0 = ''"42":"x"'' \<and> members ! 1 = ''"true":null''
         \<and> ''{"42":"x","true":null}'' = ''{'' @ joinWith '','' members @ ''}'')\<close>
proof -
  let ?content = "[scalar ''42'', scalar ''x'', scalar ''true'', scalar ''~'']"
  let ?val = "orderedMap [(''42'', Text ''x''), (''true'', Null)]"
  let ?fe = "\<lambda>_ :: float64. (Inl ''unsupported value'' :: error + string)"
  have c: "convertNode (Decode (\<lambda>_. None)) (Node MappingNode PlainStyle [] ?content) = Inr ?val"
    by (simp add: decode_simps)
  have d: "Decode (\<lambda>_. None) (scalar ''42'') = Inr (Integer 42)"
    "Decode (\<lambda>_. None) (scalar ''true'') = Inr (Bool True)"
    by (simp_all add: decode_simps)
  have f: "floatText ?fe" by (simp add: floatText_def)
  have m: \<open>marshal ?fe False ?val = Inr ''{"42":"x","true":null}''\<close>
    by (simp add: encode_simps)
  have i0: "0 < length (Entries ?val)" and i1: "1 < length (Entries ?val)" by simp_all
  from keys_verbatim[OF c i0, of ?fe] f m obtain members ji where
    a: "length members = length (Entries ?val)"
       \<open>''{"42":"x","true":null}'' = ''{'' @ joinWith '','' members @ ''}''\<close>
       "marshal ?fe True (snd (Entries ?val ! 0)) = Inr ji"
       "members ! 0 = appendString True (Value (?content ! (2 * 0))) @ '':'' @ ji"
    by blast
  have k0: "fst (Entries ?val ! 0) = ''42''" using keys_verbatim[OF c i0, of ?fe] by (simp add: scalar_def)
  from a(3,4) have m0: \<open>members ! 0 = ''"42":"x"''\<close>
    by (auto simp: scalar_def encode_simps)
  from a(1) have l2: "length members = 2" by simp
  have m1: \<open>members ! 1 = ''"true":null''\<close>
  proof -
    from l2 obtain x y where xy: "members = [x, y]"
      by (cases members; cases "tl members"; auto)
    with m0 have x: \<open>x = ''"42":"x"''\<close> by simp
    from a(2) xy x have \<open>''{"42":"x","true":null}'' = ''{'' @ ''"42":"x"'' @ '','' @ y @ ''}''\<close> by simp
    then have \<open>y = ''"true":null''\<close> by simp
    with xy show ?thesis by simp
  qed
  from l2 m0 m1 a(2) have \<open>\<exists>members. length members = 2 \<and> members ! 0 = ''"42":"x"'' \<and> members ! 1 = ''"true":null''
         \<and> ''{"42":"x","true":null}'' = ''{'' @ joinWith '','' members @ ''}''\<close>
    by blast
  with c d k0 f m show ?thesis by blast
qed

text \<open>
  C7. Empty input. When the parser leaves a node with no content (as
  \<^verbatim>\<open>yaml.Unmarshal\<close> does for empty standard input, where the node keeps its zero
  value), the program writes nothing to standard output, writes
  \<^verbatim>\<open>yaml_to_json: empty document\<close> and a newline to the error stream, and exits with
  status 1.
\<close>

theorem empty_document_fails:
  assumes "unmarshal data = Inr node" and "Content node = []"
  shows "main unmarshal decode floatEncoder (Inr data)
     = Inr \<lparr>stdout = [], stderr = ''yaml_to_json: empty document'' @ [CHR 0x0A], status = 1\<rparr>"
  using assms by (simp add: main_def run_def)

theorem empty_document_fails_witness:
  "(\<lambda>_. Inr (Node ZeroKind PlainStyle [] [])) ([] :: string) = (Inr (Node ZeroKind PlainStyle [] []) :: error + Node)
   \<and> Content (Node ZeroKind PlainStyle [] []) = []
   \<and> main (\<lambda>_. Inr (Node ZeroKind PlainStyle [] [])) (Decode (\<lambda>_. None)) (\<lambda>_. Inl ''unsupported value'') (Inr [])
     = Inr \<lparr>stdout = [], stderr = ''yaml_to_json: empty document'' @ [CHR 0x0A], status = 1\<rparr>"
  using empty_document_fails[of "\<lambda>_. Inr (Node ZeroKind PlainStyle [] [])" "[]"
      "Node ZeroKind PlainStyle [] []" "Decode (\<lambda>_. None)" "\<lambda>_. Inl ''unsupported value''"]
  by simp

text \<open>
  C8. Output on success. If the program ends with status 0, then standard output holds
  exactly the text \<open>j\<close> that the encoder, with HTML escaping off, gives for the converted
  root node, followed by one newline, and the error stream is empty; \<open>j\<close> holds no
  newline of its own (given that the float encoder prints number text). For the four lines
  \<^verbatim>\<open>name: Widget\<close>, \<^verbatim>\<open>count: 3\<close>, \<^verbatim>\<open>tags: [a, b]\<close>,
  \<^verbatim>\<open>active: true\<close>, which the parser reads as \<open>widgetDocument\<close>, the output is
  \<^verbatim>\<open>{"name":"Widget","count":3,"tags":["a","b"],"active":true}\<close> and a newline.
\<close>

theorem success_output:
  \<open>(main unmarshal decode floatEncoder stdin = Inr p \<and> status p = 0 \<longrightarrow>
      (\<exists>data node v j. stdin = Inr data \<and> unmarshal data = Inr node \<and> Content node \<noteq> []
         \<and> convertNode decode (Content node ! 0) = Inr v \<and> marshal floatEncoder False v = Inr j
         \<and> stdout p = j @ [CHR 0x0A] \<and> stderr p = []
         \<and> (floatText floatEncoder \<longrightarrow> CHR 0x0A \<notin> set j)))
   \<and> (unmarshal widgetYAML = Inr widgetDocument \<longrightarrow>
        main unmarshal (Decode ParseFloat) floatEncoder (Inr widgetYAML)
          = Inr \<lparr>stdout = ''{"name":"Widget","count":3,"tags":["a","b"],"active":true}'' @ [CHR 0x0A],
                 stderr = [], status = 0\<rparr>)\<close>
proof (intro conjI impI)
  assume a: "main unmarshal decode floatEncoder stdin = Inr p \<and> status p = 0"
  from a have a1: "main unmarshal decode floatEncoder stdin = Inr p" and a2: "status p = 0"
    by simp_all
  from main_success[OF a1 a2] obtain data node v j where
    h: "stdin = Inr data" "unmarshal data = Inr node" "Content node \<noteq> []"
       "convertNode decode (Content node ! 0) = Inr v" "marshal floatEncoder False v = Inr j"
       "stdout p = j @ [CHR 0x0A]" "stderr p = []"
    by blast
  have "floatText floatEncoder \<longrightarrow> CHR 0x0A \<notin> set j"
  proof
    assume ft: "floatText floatEncoder"
    have "escaped False (CHR 0x0A)" by (simp add: escaped_def)
    from marshal_escaped[OF ft this h(5)] show "CHR 0x0A \<notin> set j" .
  qed
  with h show "\<exists>data node v j. stdin = Inr data \<and> unmarshal data = Inr node \<and> Content node \<noteq> []
         \<and> convertNode decode (Content node ! 0) = Inr v \<and> marshal floatEncoder False v = Inr j
         \<and> stdout p = j @ [CHR 0x0A] \<and> stderr p = []
         \<and> (floatText floatEncoder \<longrightarrow> CHR 0x0A \<notin> set j)"
    by blast
next
  assume u: "unmarshal widgetYAML = Inr widgetDocument"
  have c: "Content widgetDocument = [Content widgetDocument ! 0]" by (simp add: widgetDocument_def)
  show \<open>main unmarshal (Decode ParseFloat) floatEncoder (Inr widgetYAML)
          = Inr \<lparr>stdout = ''{"name":"Widget","count":3,"tags":["a","b"],"active":true}'' @ [CHR 0x0A],
                 stderr = [], status = 0\<rparr>\<close>
    using main_run_ok[of unmarshal widgetYAML widgetDocument "Content widgetDocument ! 0" "[]"
        "Decode ParseFloat" _ floatEncoder, OF u c widget_convert widget_marshal]
    by simp
qed

theorem success_output_witness:
  \<open>(\<lambda>_. Inr widgetDocument) widgetYAML = (Inr widgetDocument :: error + Node)
   \<and> main (\<lambda>_. Inr widgetDocument) (Decode (\<lambda>_. None)) (\<lambda>_. Inl ''unsupported value'') (Inr widgetYAML)
       = Inr \<lparr>stdout = ''{"name":"Widget","count":3,"tags":["a","b"],"active":true}'' @ [CHR 0x0A],
              stderr = [], status = 0\<rparr>
   \<and> status \<lparr>stdout = ''{"name":"Widget","count":3,"tags":["a","b"],"active":true}'' @ [CHR 0x0A],
              stderr = [], status = 0\<rparr> = 0
   \<and> floatText (\<lambda>_. Inl ''unsupported value'')\<close>
  using success_output[of "\<lambda>_. Inr widgetDocument" "Decode (\<lambda>_. None)" "\<lambda>_. Inl ''unsupported value''"
      "Inr widgetYAML" _ "\<lambda>_. None"]
  by (simp add: floatText_def)

text \<open>
  C9. Streams of several documents, against the parser modelled from the spec
  (\<open>UnmarshalFirst\<close>). When the stream holds the documents \<open>doc # rest\<close>, the
  program behaves as on \<open>doc\<close> alone, whatever \<open>rest\<close> is: if the content of
  \<open>doc\<close> converts and encodes, it exits with status 0 having written that text and a
  newline.
\<close>

theorem first_document_used:
  assumes "documents data = Inr (doc # rest)"
  shows "UnmarshalFirst documents data = Inr doc
     \<and> main (UnmarshalFirst documents) decode floatEncoder (Inr data)
         = main (\<lambda>_. Inr doc) decode floatEncoder (Inr data)
     \<and> (\<forall>child cs v j.
           Content doc = child # cs \<and> convertNode decode child = Inr v
             \<and> marshal floatEncoder False v = Inr j \<longrightarrow>
           main (UnmarshalFirst documents) decode floatEncoder (Inr data)
             = Inr \<lparr>stdout = j @ [CHR 0x0A], stderr = [], status = 0\<rparr>)"
proof -
  have u: "UnmarshalFirst documents data = Inr doc" using assms by (simp add: UnmarshalFirst_def)
  have "main (UnmarshalFirst documents) decode floatEncoder (Inr data)
         = main (\<lambda>_. Inr doc) decode floatEncoder (Inr data)"
    using u by (simp add: main_def run_def)
  moreover have "main (UnmarshalFirst documents) decode floatEncoder (Inr data)
             = Inr \<lparr>stdout = j @ [CHR 0x0A], stderr = [], status = 0\<rparr>"
    if "Content doc = child # cs" "convertNode decode child = Inr v" "marshal floatEncoder False v = Inr j"
    for child cs v j
    using main_run_ok[of "UnmarshalFirst documents" data doc child cs decode v floatEncoder j, OF u that] .
  ultimately show ?thesis using u by blast
qed

theorem first_document_used_witness:
  \<open>(\<lambda>_. Inr [widgetDocument, Node DocumentNode PlainStyle [] [scalar ''second'']]) (widgetYAML @ ''---'' @ [CHR 0x0A] @ ''second'' @ [CHR 0x0A])
      = (Inr (widgetDocument # [Node DocumentNode PlainStyle [] [scalar ''second'']]) :: error + Node list)
   \<and> main (UnmarshalFirst (\<lambda>_. Inr [widgetDocument, Node DocumentNode PlainStyle [] [scalar ''second'']]))
        (Decode (\<lambda>_. None)) (\<lambda>_. Inl ''unsupported value'')
        (Inr (widgetYAML @ ''---'' @ [CHR 0x0A] @ ''second'' @ [CHR 0x0A]))
       = Inr \<lparr>stdout = ''{"name":"Widget","count":3,"tags":["a","b"],"active":true}'' @ [CHR 0x0A],
              stderr = [], status = 0\<rparr>\<close>
proof -
  let ?docs = "\<lambda>_ :: string. (Inr [widgetDocument, Node DocumentNode PlainStyle [] [scalar ''second'']] :: error + Node list)"
  let ?data = "widgetYAML @ ''---'' @ [CHR 0x0A] @ ''second'' @ [CHR 0x0A]"
  have d: "?docs ?data = Inr (widgetDocument # [Node DocumentNode PlainStyle [] [scalar ''second'']])"
    by simp
  have c: "Content widgetDocument = (Content widgetDocument ! 0) # []" by (simp add: widgetDocument_def)
  note t = first_document_used[of ?docs ?data widgetDocument
      "[Node DocumentNode PlainStyle [] [scalar ''second'']]"
      "Decode (\<lambda>_. None)" "\<lambda>_. Inl ''unsupported value''", OF d]
  have \<open>main (UnmarshalFirst ?docs) (Decode (\<lambda>_. None)) (\<lambda>_. Inl ''unsupported value'') (Inr ?data)
       = Inr \<lparr>stdout = ''{"name":"Widget","count":3,"tags":["a","b"],"active":true}'' @ [CHR 0x0A],
              stderr = [], status = 0\<rparr>\<close>
    using t c widget_convert[of "\<lambda>_. None"] widget_marshal[of "\<lambda>_. Inl ''unsupported value''"]
    by blast
  with d show ?thesis by blast
qed

text \<open>
  C10. Complex keys. \<open>convertNode\<close> takes the \<^verbatim>\<open>Value\<close> field of a key node
  whatever its kind. For a key that is a mapping or a sequence node this field is empty (the
  parser leaves no text in such nodes: the hypothesis on \<open>Value\<close>), so the entry's key
  is the empty string, written \<^verbatim>\<open>""\<close>; two such entries have the same key, and
  are equal when their value nodes are.
\<close>

theorem complex_keys_collapse:
  assumes "convertNode decode (Node MappingNode st v content) = Inr val"
    and "i < length (Entries val)" and "j < length (Entries val)"
    and "Kind (content ! (2 * i)) = MappingNode \<or> Kind (content ! (2 * i)) = SequenceNode"
    and "Kind (content ! (2 * j)) = MappingNode \<or> Kind (content ! (2 * j)) = SequenceNode"
    and "Value (content ! (2 * i)) = []" and "Value (content ! (2 * j)) = []"
  shows "fst (Entries val ! i) = [] \<and> fst (Entries val ! j) = []
     \<and> marshal floatEncoder True (Text (fst (Entries val ! i))) = Inr [quote, quote]
     \<and> marshal floatEncoder True (Text (fst (Entries val ! j))) = Inr [quote, quote]
     \<and> (content ! (2 * i + 1) = content ! (2 * j + 1) \<longrightarrow> Entries val ! i = Entries val ! j)"
proof -
  have ki: "fst (Entries val ! i) = []" and kj: "fst (Entries val ! j) = []"
    using mapping_entry_nth(2)[OF assms(1)] assms by simp_all
  have "Entries val ! i = Entries val ! j" if "content ! (2 * i + 1) = content ! (2 * j + 1)"
  proof -
    have "Inr (snd (Entries val ! i)) = (Inr (snd (Entries val ! j)) :: panic + Value)"
      using mapping_entry_nth(3)[OF assms(1,2)] mapping_entry_nth(3)[OF assms(1,3)] that by simp
    then show ?thesis using ki kj by (simp add: prod_eq_iff)
  qed
  with ki kj show ?thesis by (simp add: appendString_def)
qed

theorem complex_keys_collapse_witness:
  \<open>convertNode (Decode (\<lambda>_. None))
      (Node MappingNode PlainStyle []
         [Node SequenceNode PlainStyle [] [scalar ''a'', scalar ''b''], scalar ''x'',
          Node MappingNode PlainStyle [] [scalar ''c'', scalar ''d''], scalar ''x''])
     = Inr (orderedMap [([], Text ''x''), ([], Text ''x'')])
   \<and> marshal (\<lambda>_. Inl ''unsupported value'') False (orderedMap [([], Text ''x''), ([], Text ''x'')])
       = Inr ''{"":"x","":"x"}''\<close>
proof -
  let ?content = "[Node SequenceNode PlainStyle [] [scalar ''a'', scalar ''b''], scalar ''x'',
          Node MappingNode PlainStyle [] [scalar ''c'', scalar ''d''], scalar ''x'']"
  have c: "convertNode (Decode (\<lambda>_. None)) (Node MappingNode PlainStyle [] ?content)
     = Inr (orderedMap [([], Text ''x''), ([], Text ''x'')])"
    by (simp add: decode_simps)
  have m: \<open>marshal (\<lambda>_. Inl ''unsupported value'') False (orderedMap [([], Text ''x''), ([], Text ''x'')])
       = Inr ''{"":"x","":"x"}''\<close>
    by (simp add: encode_simps)
  have "fst (Entries (orderedMap [([], Text ''x''), ([], Text ''x'')]) ! 0) = []"
    using complex_keys_collapse[OF c, of 0 1 "\<lambda>_. Inl ''unsupported value''"] by (simp add: scalar_def)
  with c m show ?thesis by simp
qed

end
